theory Spec2Isabelle
  imports Complex_Main
begin

section \<open>Numerical data model\<close>

text \<open>
  The notebook works on numpy arrays of floating-point numbers. The embedding takes the
  real numbers for the scalars, a list of reals for a design vector (a one-dimensional
  array, or an \<open>(n, 1)\<close> column), and a list of rows for a matrix. All vector
  operations are read on operands of conforming shape, where zipping two lists is what
  numpy computes; the theorems that depend on the shapes assume them. The solvers, the
  update rules and the transforms are read in exact arithmetic; \<open>scale\<close> and
  \<open>descale\<close>, which are one arithmetic operation per entry and nothing else, carry the
  rounding of float64.

  A division whose divisor is zero has no real value: numpy produces \<open>inf\<close> or
  \<open>nan\<close> there (with a RuntimeWarning), Python's own numbers raise. The embedding
  makes every such division a branch of its own, \<open>Inl DivisionByZero\<close>; a float64
  result too large to be finite (numpy's \<open>inf\<close>) is \<open>Inl Overflow\<close>.
\<close>

type_synonym vec = "real list"
type_synonym matrix = "real list list"

datatype error = DivisionByZero | ModuloByZero | ShapeMismatch | Overflow

definition vadd :: "vec \<Rightarrow> vec \<Rightarrow> vec" where
  "vadd u v = map2 (+) u v"

definition vsub :: "vec \<Rightarrow> vec \<Rightarrow> vec" where
  "vsub u v = map2 (-) u v"

definition vneg :: "vec \<Rightarrow> vec" where
  "vneg v = map uminus v"

definition smul :: "real \<Rightarrow> vec \<Rightarrow> vec" where
  "smul a v = map ((*) a) v"

definition vdiv :: "vec \<Rightarrow> real \<Rightarrow> error + vec" where
  \<comment> \<open>\<open>v / d\<close> for an array \<open>v\<close> and a scalar \<open>d\<close>: an empty array divides to itself.\<close>
  "vdiv v d = (if d = 0 \<and> v \<noteq> [] then Inl DivisionByZero else Inr (map (\<lambda>a. a / d) v))"

definition linalg_norm :: "vec \<Rightarrow> real" where
  \<comment> \<open>\<open>np.linalg.norm\<close> of a vector: the 2-norm.\<close>
  "linalg_norm v = sqrt (sum_list (map (\<lambda>a. a\<^sup>2) v))"

section \<open>Finite differences\<close>

text \<open>
  \<open>forward_diff\<close> calls the objective inside its loop. To count the calls, every call
  goes through \<open>call\<close>, which returns the value and advances a counter; the loop over
  \<open>range(x.shape[0])\<close> is a fold over the indices that carries the array
  \<open>delta_f\<close> and the counter.
\<close>

definition call :: "(vec \<Rightarrow> real) \<Rightarrow> vec \<Rightarrow> nat \<Rightarrow> real \<times> nat" where
  "call f x calls = (f x, Suc calls)"

definition forward_diff_body ::
  "(vec \<Rightarrow> real) \<Rightarrow> vec \<Rightarrow> real \<Rightarrow> nat \<Rightarrow> vec \<times> nat \<Rightarrow> vec \<times> nat" where
  "forward_diff_body f x h i st =
     (let (delta_f, calls) = st;
          x_forw = x[i := x ! i + h];
          (f_forw, calls) = call f x_forw calls;
          (f_x, calls) = call f x calls
      in (delta_f[i := (f_forw - f_x) / h], calls))"

definition forward_diff_counted ::
  "(vec \<Rightarrow> real) \<Rightarrow> vec \<Rightarrow> real \<Rightarrow> error + (vec \<times> nat)" where
  "forward_diff_counted f x h =
     (if h = 0 \<and> x \<noteq> [] then Inl DivisionByZero
      else Inr (fold (forward_diff_body f x h) [0..<length x] (replicate (length x) 0, 0)))"

definition forward_diff :: "(vec \<Rightarrow> real) \<Rightarrow> vec \<Rightarrow> real \<Rightarrow> error + vec" where
  "forward_diff f x h = map_sum id fst (forward_diff_counted f x h)"

definition forward_diff_calls :: "(vec \<Rightarrow> real) \<Rightarrow> vec \<Rightarrow> real \<Rightarrow> error + nat" where
  "forward_diff_calls f x h = map_sum id snd (forward_diff_counted f x h)"

section \<open>Penalty transform\<close>

definition constrained_to_unconstrained ::
  "(vec \<Rightarrow> real) \<Rightarrow> (vec \<Rightarrow> vec \<times> vec) \<Rightarrow> vec \<Rightarrow> real \<Rightarrow> vec \<Rightarrow> real" where
  \<comment> \<open>The outer argument \<open>x\<close> is shadowed by the parameter of the returned function.\<close>
  "constrained_to_unconstrained f con x p =
     (\<lambda>x. let (g, h) = con x;
              con_sum = 0;
              con_sum = fold (\<lambda>i con_sum. con_sum + (max 0 (g ! i))\<^sup>2) [0..<length g] con_sum;
              con_sum = fold (\<lambda>i con_sum. con_sum + (h ! i)\<^sup>2) [0..<length h] con_sum
          in f x + p * con_sum)"

definition constrained_to_unconstrained_default ::
  "(vec \<Rightarrow> real) \<Rightarrow> (vec \<Rightarrow> vec \<times> vec) \<Rightarrow> vec \<Rightarrow> vec \<Rightarrow> real" where
  \<comment> \<open>The call without \<open>p\<close>: the default \<open>p=100\<close>.\<close>
  "constrained_to_unconstrained_default f con x = constrained_to_unconstrained f con x 100"

section \<open>Scaling\<close>

text \<open>
  \<open>np.divide\<close> and \<open>np.multiply\<close> work entry by entry on float64 arrays: each
  quotient and each product is the exact result rounded to the nearest float64 number,
  ties to the even significand (IEEE 754 binary64: 53 significant bits, exponents from
  \<open>-1022\<close> to \<open>1023\<close>, subnormal numbers below \<open>2^(-1022)\<close>). The entries of the
  arrays are float64 numbers, which are real numbers; \<open>float64_nearest\<close> is the
  rounding, and \<open>float64_round\<close> adds the overflow to \<open>inf\<close>.
\<close>

function bit_length :: "int \<Rightarrow> int" where
  \<comment> \<open>The number of binary digits of a positive integer.\<close>
  "bit_length n = (if n \<le> 0 then 0 else 1 + bit_length (n div 2))"
  by pat_completeness auto
termination
  by (relation "measure nat") auto

declare bit_length.simps [simp del]

definition binary_exponent :: "real \<Rightarrow> int" where
  \<comment> \<open>The exponent \<open>e\<close> with \<open>2^e \<le> |y| < 2^(e+1)\<close>, for \<open>y \<noteq> 0\<close>.\<close>
  "binary_exponent y =
     (if 1 \<le> \<bar>y\<bar> then bit_length \<lfloor>\<bar>y\<bar>\<rfloor> - 1 else - bit_length (\<lceil>1 / \<bar>y\<bar>\<rceil> - 1))"

definition round_half_even :: "real \<Rightarrow> int" where
  \<comment> \<open>The nearest integer, the even one of the two when \<open>z\<close> is halfway.\<close>
  "round_half_even z =
     (let n = \<lfloor>z\<rfloor>; d = z - of_int n
      in if d < 1 / 2 then n else if 1 / 2 < d then n + 1 else if even n then n else n + 1)"

definition float64_nearest :: "real \<Rightarrow> real" where
  \<comment> \<open>Rounding to 53 significant bits; below \<open>2^(-1022)\<close> the spacing stays that of the
      smallest normal numbers (subnormal numbers).\<close>
  "float64_nearest y =
     (if y = 0 then 0
      else let e = max (binary_exponent y) (- 1022);
               ulp = power_int 2 (e - 52)
           in of_int (round_half_even (y / ulp)) * ulp)"

definition float64_round :: "real \<Rightarrow> error + real" where
  "float64_round y =
     (let r = float64_nearest y in if 2 ^ 1024 \<le> \<bar>r\<bar> then Inl Overflow else Inr r)"

definition float64_divide :: "real \<Rightarrow> real \<Rightarrow> error + real" where
  "float64_divide a b = (if b = 0 then Inl DivisionByZero else float64_round (a / b))"

definition float64_multiply :: "real \<Rightarrow> real \<Rightarrow> error + real" where
  "float64_multiply a b = float64_round (a * b)"

fun collect :: "(error + real) list \<Rightarrow> error + vec" where
  \<comment> \<open>The array of the results, or the first failure.\<close>
  "collect [] = Inr []"
| "collect (r # rs) =
     (case r of
        Inl e \<Rightarrow> Inl e
      | Inr a \<Rightarrow> (case collect rs of Inl e \<Rightarrow> Inl e | Inr as \<Rightarrow> Inr (a # as)))"

definition broadcast2 :: "(real \<Rightarrow> real \<Rightarrow> error + real) \<Rightarrow> vec \<Rightarrow> vec \<Rightarrow> error + vec" where
  \<comment> \<open>An elementwise numpy operation on two one-dimensional arrays: equal lengths pair
      up, an operand of length one is stretched, any other pair of shapes raises.\<close>
  "broadcast2 opr u v =
     (if length u = length v then collect (map2 opr u v)
      else if length v = 1 then collect (map (\<lambda>a. opr a (hd v)) u)
      else if length u = 1 then collect (map (\<lambda>b. opr (hd u) b) v)
      else Inl ShapeMismatch)"

definition scale :: "vec \<Rightarrow> vec \<Rightarrow> error + vec" where
  "scale x_raw x_ref = broadcast2 float64_divide x_raw x_ref"

definition descale :: "vec \<Rightarrow> vec \<Rightarrow> error + vec" where
  "descale x_scaled x_ref = broadcast2 float64_multiply x_scaled x_ref"

section \<open>Matrix operations\<close>

text \<open>
  The update rules are written for column vectors: \<open>u.T @ v\<close> is the inner product (a
  \<open>1 \<times> 1\<close> array, read as its entry), \<open>u @ v.T\<close> the outer product,
  \<open>u.T @ B\<close> a row vector and \<open>B @ v\<close> a column vector.
\<close>

definition dot :: "vec \<Rightarrow> vec \<Rightarrow> real" where
  "dot u v = sum_list (map2 (*) u v)"

definition outer :: "vec \<Rightarrow> vec \<Rightarrow> matrix" where
  "outer u v = map (\<lambda>a. map (\<lambda>b. a * b) v) u"

definition vec_mat :: "vec \<Rightarrow> matrix \<Rightarrow> vec" where
  "vec_mat u B = map (dot u) (transpose B)"

definition mat_vec :: "matrix \<Rightarrow> vec \<Rightarrow> vec" where
  "mat_vec B v = map (\<lambda>row. dot row v) B"

definition mat_add :: "matrix \<Rightarrow> matrix \<Rightarrow> matrix" where
  "mat_add A B = map2 vadd A B"

definition mat_sub :: "matrix \<Rightarrow> matrix \<Rightarrow> matrix" where
  "mat_sub A B = map2 vsub A B"

definition mat_neg :: "matrix \<Rightarrow> matrix" where
  "mat_neg A = map vneg A"

definition mat_smul :: "real \<Rightarrow> matrix \<Rightarrow> matrix" where
  "mat_smul c A = map (smul c) A"

definition mat_sdiv :: "matrix \<Rightarrow> real \<Rightarrow> matrix" where
  "mat_sdiv A d = map (map (\<lambda>a. a / d)) A"

definition eye :: "nat \<Rightarrow> matrix" where
  "eye n = map (\<lambda>i. map (\<lambda>j. if i = j then 1 else 0) [0..<n]) [0..<n]"

section \<open>Hessian update rules\<close>

definition BFGS_update :: "matrix \<Rightarrow> vec \<Rightarrow> vec \<Rightarrow> error + matrix" where
  "BFGS_update B delta_x delta_delta =
     (if dot delta_delta delta_x = 0 \<or> dot delta_x delta_delta = 0 then Inl DivisionByZero
      else Inr (mat_sub
        (mat_sdiv
           (mat_smul (1 + dot (vec_mat delta_delta B) delta_delta / dot delta_delta delta_x)
              (outer delta_x delta_x))
           (dot delta_x delta_delta))
        (mat_sdiv
           (mat_add (outer delta_x (vec_mat delta_delta B)) (outer (vec_mat delta_delta B) delta_x))
           (dot delta_x delta_delta))))"

definition DFP_update :: "matrix \<Rightarrow> vec \<Rightarrow> vec \<Rightarrow> error + matrix" where
  "DFP_update B delta_x delta_delta =
     (if dot delta_x delta_delta = 0 \<or> dot (vec_mat delta_delta B) delta_delta = 0
      then Inl DivisionByZero
      else Inr (mat_sub
        (mat_sdiv (outer delta_x delta_x) (dot delta_x delta_delta))
        (mat_sdiv (outer (mat_vec B delta_delta) (mat_vec B delta_delta))
           (dot (vec_mat delta_delta B) delta_delta))))"

section \<open>Unconstrained solvers\<close>

text \<open>
  \<open>opt.fminbound\<close> is scipy's bounded scalar minimizer; every solver takes it as its
  first parameter \<open>fminbound\<close>. The objective \<open>f\<close> and the gradient estimator
  \<open>delta_f\<close> are the caller's, as in the notebook. A solver returns \<open>x_new\<close>, and
  with \<open>full_output\<close> also \<open>f(x_new)\<close>, the exit flag and the iteration count.

  The \<open>if\<close>/\<open>elif\<close> chain that ends an iteration is the same text in all four
  loops; \<open>check_convergence\<close> is that chain, with \<open>None\<close> for \<open>convergence\<close> left
  \<open>False\<close>.
\<close>

type_synonym line_search = "(real \<Rightarrow> real) \<Rightarrow> real \<Rightarrow> real \<Rightarrow> real"
type_synonym objective = "vec \<Rightarrow> real"
type_synonym gradient = "(vec \<Rightarrow> real) \<Rightarrow> vec \<Rightarrow> vec"
type_synonym solver_output = "vec \<times> (real \<times> int \<times> int) option"

definition check_convergence ::
  "int \<Rightarrow> int \<Rightarrow> real \<Rightarrow> real \<Rightarrow> real \<Rightarrow> real \<Rightarrow> real \<Rightarrow> real \<Rightarrow> int option" where
  "check_convergence iter max_iter grad_norm grad_tol step_norm delta_x_tol f_change delta_f_tol =
     (if iter \<ge> max_iter then Some 0
      else if grad_norm \<le> grad_tol then Some 1
      else if step_norm \<le> delta_x_tol then Some 2
      else if f_change \<le> delta_f_tol then Some 3
      else None)"

definition return_output :: "objective \<Rightarrow> bool \<Rightarrow> vec \<times> int \<times> int \<Rightarrow> solver_output" where
  "return_output f full_output r =
     (let (x_new, exit_flag, iter) = r
      in if full_output then (x_new, Some (f x_new, exit_flag, iter)) else (x_new, None))"

definition sd_step :: "line_search \<Rightarrow> objective \<Rightarrow> gradient \<Rightarrow> vec \<Rightarrow> error + vec" where
  \<comment> \<open>One pass of \<open>steepest_descent\<close> up to the new iterate \<open>x_new\<close>.\<close>
  "sd_step fminbound f delta_f x =
     (let s = vneg (delta_f f x) in
      case vdiv s (linalg_norm s) of
        Inl e \<Rightarrow> Inl e
      | Inr s \<Rightarrow>
          let alpha = fminbound (\<lambda>alpha. f (vadd x (smul alpha s))) 0 1;
              x_new = vadd x (smul alpha s)
          in Inr x_new)"

function sd_loop ::
  "line_search \<Rightarrow> objective \<Rightarrow> gradient \<Rightarrow> real \<Rightarrow> real \<Rightarrow> real \<Rightarrow> int \<Rightarrow> vec \<Rightarrow> int \<Rightarrow>
   error + (vec \<times> int \<times> int)" where
  "sd_loop fminbound f delta_f grad_tol delta_f_tol delta_x_tol max_iter x iter =
     (case sd_step fminbound f delta_f x of
        Inl e \<Rightarrow> Inl e
      | Inr x_new \<Rightarrow>
          let iter = iter + 1;
              exit_flag = check_convergence iter max_iter
                (linalg_norm (delta_f f x_new)) grad_tol
                (linalg_norm (vsub x_new x)) delta_x_tol
                \<bar>f x_new - f x\<bar> delta_f_tol
          in case exit_flag of
               Some flag \<Rightarrow> Inr (x_new, flag, iter)
             | None \<Rightarrow>
                 sd_loop fminbound f delta_f grad_tol delta_f_tol delta_x_tol max_iter x_new iter)"
  by pat_completeness auto
termination
  by (relation "measure (\<lambda>(fminbound, f, delta_f, grad_tol, delta_f_tol, delta_x_tol,
        max_iter, x, iter). nat (max_iter - iter))")
    (auto simp: check_convergence_def split: if_splits)

definition steepest_descent ::
  "line_search \<Rightarrow> objective \<Rightarrow> vec \<Rightarrow> gradient \<Rightarrow> real \<Rightarrow> real \<Rightarrow> real \<Rightarrow> int \<Rightarrow> bool \<Rightarrow>
   error + solver_output" where
  "steepest_descent fminbound f x delta_f grad_tol delta_f_tol delta_x_tol max_iter full_output =
     map_sum id (return_output f full_output)
       (sd_loop fminbound f delta_f grad_tol delta_f_tol delta_x_tol max_iter x 0)"

text \<open>
  \<open>conjugate_gradient\<close> takes a first steepest-descent step before its loop. The loop
  carries the previous iterate \<open>x\<close>, the current one \<open>x_new\<close> and the last
  normalized direction \<open>s\<close>; \<open>iter % x.shape[0]\<close> raises on an empty \<open>x\<close>.
\<close>

definition cg_direction :: "objective \<Rightarrow> gradient \<Rightarrow> vec \<Rightarrow> vec \<Rightarrow> vec \<Rightarrow> int \<Rightarrow> error + vec" where
  \<comment> \<open>The direction of one pass, before it is normalized.\<close>
  "cg_direction f delta_f x x_new s iter =
     (if length x = 0 then Inl ModuloByZero
      else if iter mod int (length x) = 0 then Inr (vneg (delta_f f x_new))
      else if (linalg_norm (delta_f f x))\<^sup>2 = 0 then Inl DivisionByZero
      else Inr (vadd (vneg (delta_f f x_new))
             (smul ((linalg_norm (delta_f f x_new))\<^sup>2 / (linalg_norm (delta_f f x))\<^sup>2) s)))"

definition cg_step ::
  "line_search \<Rightarrow> objective \<Rightarrow> gradient \<Rightarrow> int \<Rightarrow> vec \<times> vec \<times> vec \<Rightarrow> error + (vec \<times> vec \<times> vec)" where
  \<comment> \<open>One pass of the loop up to the new iterate: from \<open>(x, x_new, s)\<close> to their new values.\<close>
  "cg_step fminbound f delta_f iter st =
     (let (x, x_new, s) = st in
      case cg_direction f delta_f x x_new s iter of
        Inl e \<Rightarrow> Inl e
      | Inr s \<Rightarrow>
         (case vdiv s (linalg_norm s) of
            Inl e \<Rightarrow> Inl e
          | Inr s \<Rightarrow>
              let alpha = fminbound (\<lambda>alpha. f (vadd x_new (smul alpha s))) 0 1;
                  x = x_new;
                  x_new = vadd x (smul alpha s)
              in Inr (x, x_new, s)))"

function cg_loop ::
  "line_search \<Rightarrow> objective \<Rightarrow> gradient \<Rightarrow> real \<Rightarrow> real \<Rightarrow> real \<Rightarrow> int \<Rightarrow> vec \<Rightarrow> vec \<Rightarrow> vec \<Rightarrow> int \<Rightarrow>
   error + (vec \<times> int \<times> int)" where
  "cg_loop fminbound f delta_f grad_tol delta_f_tol delta_x_tol max_iter x x_new s iter =
     (case cg_step fminbound f delta_f iter (x, x_new, s) of
        Inl e \<Rightarrow> Inl e
      | Inr (x, x_new, s) \<Rightarrow>
          let iter = iter + 1;
              exit_flag = check_convergence iter max_iter
                (linalg_norm (delta_f f x_new)) grad_tol
                (linalg_norm (vsub x_new x)) delta_x_tol
                \<bar>f x_new - f x\<bar> delta_f_tol
          in case exit_flag of
               Some flag \<Rightarrow> Inr (x_new, flag, iter)
             | None \<Rightarrow>
                 cg_loop fminbound f delta_f grad_tol delta_f_tol delta_x_tol max_iter
                   x x_new s iter)"
  by pat_completeness auto
termination
  by (relation "measure (\<lambda>(fminbound, f, delta_f, grad_tol, delta_f_tol, delta_x_tol,
        max_iter, x, x_new, s, iter). nat (max_iter - iter))")
    (auto simp: check_convergence_def split: if_splits)

definition cg_init :: "line_search \<Rightarrow> objective \<Rightarrow> gradient \<Rightarrow> vec \<Rightarrow> error + (vec \<times> vec \<times> vec)" where
  \<comment> \<open>The statements before the loop: the first direction and the first step.\<close>
  "cg_init fminbound f delta_f x =
     (let s = vneg (delta_f f x) in
      case vdiv s (linalg_norm s) of
        Inl e \<Rightarrow> Inl e
      | Inr s \<Rightarrow>
          let alpha = fminbound (\<lambda>alpha. f (vadd x (smul alpha s))) 0 1;
              x_new = vadd x (smul alpha s)
          in Inr (x, x_new, s))"

definition conjugate_gradient ::
  "line_search \<Rightarrow> objective \<Rightarrow> vec \<Rightarrow> gradient \<Rightarrow> real \<Rightarrow> real \<Rightarrow> real \<Rightarrow> int \<Rightarrow> bool \<Rightarrow>
   error + solver_output" where
  "conjugate_gradient fminbound f x delta_f grad_tol delta_f_tol delta_x_tol max_iter full_output =
     (case cg_init fminbound f delta_f x of
        Inl e \<Rightarrow> Inl e
      | Inr (x, x_new, s) \<Rightarrow>
          map_sum id (return_output f full_output)
            (cg_loop fminbound f delta_f grad_tol delta_f_tol delta_x_tol max_iter x x_new s 0))"

text \<open>
  In \<open>quasi_newton\<close> the Hessian approximation is updated after the convergence check,
  also in the pass that ends the loop, where the new \<open>B\<close> is never read. The loop
  therefore carries \<open>B\<close> together with the failure of its last update, and the failure
  shows when the next pass reads \<open>B\<close>.
\<close>

type_synonym update_rule = "matrix \<Rightarrow> vec \<Rightarrow> vec \<Rightarrow> error + matrix"

definition qn_step ::
  "line_search \<Rightarrow> objective \<Rightarrow> gradient \<Rightarrow> update_rule \<Rightarrow> (error + matrix) \<times> vec \<Rightarrow>
   error + ((error + matrix) \<times> vec)" where
  \<comment> \<open>One pass of the loop: the new iterate and the updated \<open>B\<close>.\<close>
  "qn_step fminbound f delta_f update_rule st =
     (let (B, x) = st in
      case B of
        Inl e \<Rightarrow> Inl e
      | Inr B \<Rightarrow>
         (let s = mat_vec (mat_neg B) (delta_f f x) in
          case vdiv s (linalg_norm s) of
            Inl e \<Rightarrow> Inl e
          | Inr s \<Rightarrow>
              let alpha = fminbound (\<lambda>alpha. f (vadd x (smul alpha s))) 0 1;
                  x_new = vadd x (smul alpha s);
                  B = map_sum id (mat_add B)
                        (update_rule B (vsub x_new x) (vsub (delta_f f x_new) (delta_f f x)))
              in Inr (B, x_new)))"

function qn_loop ::
  "line_search \<Rightarrow> objective \<Rightarrow> gradient \<Rightarrow> real \<Rightarrow> real \<Rightarrow> real \<Rightarrow> int \<Rightarrow> update_rule \<Rightarrow>
   error + matrix \<Rightarrow> vec \<Rightarrow> int \<Rightarrow> error + (vec \<times> int \<times> int)" where
  "qn_loop fminbound f delta_f grad_tol delta_f_tol delta_x_tol max_iter update_rule B x iter =
     (case qn_step fminbound f delta_f update_rule (B, x) of
        Inl e \<Rightarrow> Inl e
      | Inr (B, x_new) \<Rightarrow>
          let iter = iter + 1;
              exit_flag = check_convergence iter max_iter
                (linalg_norm (delta_f f x_new)) grad_tol
                (linalg_norm (vsub x_new x)) delta_x_tol
                \<bar>f x_new - f x\<bar> delta_f_tol
          in case exit_flag of
               Some flag \<Rightarrow> Inr (x_new, flag, iter)
             | None \<Rightarrow>
                 qn_loop fminbound f delta_f grad_tol delta_f_tol delta_x_tol max_iter
                   update_rule B x_new iter)"
  by pat_completeness auto
termination
  by (relation "measure (\<lambda>(fminbound, f, delta_f, grad_tol, delta_f_tol, delta_x_tol,
        max_iter, update_rule, B, x, iter). nat (max_iter - iter))")
    (auto simp: check_convergence_def split: if_splits)

definition quasi_newton ::
  "line_search \<Rightarrow> objective \<Rightarrow> vec \<Rightarrow> gradient \<Rightarrow> real \<Rightarrow> real \<Rightarrow> real \<Rightarrow> int \<Rightarrow> bool \<Rightarrow>
   update_rule \<Rightarrow> error + solver_output" where
  "quasi_newton fminbound f x delta_f grad_tol delta_f_tol delta_x_tol max_iter full_output
       update_rule =
     (let B = eye (length x)
      in map_sum id (return_output f full_output)
           (qn_loop fminbound f delta_f grad_tol delta_f_tol delta_x_tol max_iter update_rule
              (Inr B) x 0))"

section \<open>Augmented Lagrangian\<close>

type_synonym constraints = "vec \<Rightarrow> vec \<times> vec"

definition calc_lagrangian :: "objective \<Rightarrow> constraints \<Rightarrow> vec \<Rightarrow> vec \<Rightarrow> vec \<Rightarrow> real" where
  "calc_lagrangian f con x lambda mu =
     (let (g, h) = con x in f x + dot lambda h + dot mu g)"

definition calc_augmented_lagrangian ::
  "objective \<Rightarrow> constraints \<Rightarrow> vec \<Rightarrow> vec \<Rightarrow> vec \<Rightarrow> real \<Rightarrow> real" where
  "calc_augmented_lagrangian f con x lambda mu rho =
     (let (g, h) = con x;
          con_sum = 0;
          con_sum = fold (\<lambda>i con_sum. con_sum + (max 0 (g ! i))\<^sup>2) [0..<length g] con_sum;
          con_sum = fold (\<lambda>i con_sum. con_sum + (h ! i)\<^sup>2) [0..<length h] con_sum
      in calc_lagrangian f con x lambda mu + rho * con_sum)"

definition al_step ::
  "line_search \<Rightarrow> objective \<Rightarrow> constraints \<Rightarrow> gradient \<Rightarrow> real \<Rightarrow> real \<Rightarrow> real \<Rightarrow>
   vec \<times> vec \<times> vec \<Rightarrow> error + (vec \<times> vec \<times> vec)" where
  \<comment> \<open>One outer pass up to the convergence check: from \<open>(x, mu0, lambda_0)\<close> to
      \<open>(x_new, mu_new, lambda_new)\<close>. The inner call passes \<open>delta_f_tol\<close> and
      \<open>delta_x_tol\<close> by position and \<open>max_iter=100\<close> by keyword; \<open>delta_x_tol\<close>
      and \<open>update_rule\<close> keep the defaults of \<open>quasi_newton\<close>.\<close>
  "al_step fminbound f con delta_f rho delta_f_tol delta_x_tol st =
     (let (x, mu0, lambda_0) = st in
      case quasi_newton fminbound (\<lambda>x. calc_augmented_lagrangian f con x lambda_0 mu0 rho)
             x delta_f delta_f_tol delta_x_tol (1 / 10 ^ 5) 100 False BFGS_update of
        Inl e \<Rightarrow> Inl e
      | Inr out \<Rightarrow>
          let x_new = fst out;
              (g, h) = con x_new;
              mu_new = vadd mu0 (smul rho g);
              mu_new = fold (\<lambda>i mu_new. if mu_new ! i < 0 then mu_new[i := 0] else mu_new)
                         [0..<length mu_new] mu_new;
              lambda_new = vadd lambda_0 (smul rho h);
              delta_L_new = delta_f (\<lambda>x. calc_lagrangian f con x lambda_new mu_new) x_new
          in Inr (x_new, mu_new, lambda_new))"

function al_loop ::
  "line_search \<Rightarrow> objective \<Rightarrow> constraints \<Rightarrow> gradient \<Rightarrow> real \<Rightarrow> real \<Rightarrow> real \<Rightarrow> real \<Rightarrow> int \<Rightarrow>
   vec \<Rightarrow> vec \<Rightarrow> vec \<Rightarrow> int \<Rightarrow> error + (vec \<times> int \<times> int)" where
  "al_loop fminbound f con delta_f rho grad_tol delta_f_tol delta_x_tol max_iter
       x mu0 lambda_0 iter =
     (case al_step fminbound f con delta_f rho delta_f_tol delta_x_tol (x, mu0, lambda_0) of
        Inl e \<Rightarrow> Inl e
      | Inr (x_new, mu_new, lambda_new) \<Rightarrow>
          let iter = iter + 1;
              exit_flag = check_convergence iter max_iter
                (linalg_norm (delta_f f x_new)) grad_tol
                (linalg_norm (vsub x_new x)) delta_x_tol
                \<bar>f x_new - f x\<bar> delta_f_tol
          in case exit_flag of
               Some flag \<Rightarrow> Inr (x_new, flag, iter)
             | None \<Rightarrow>
                 al_loop fminbound f con delta_f rho grad_tol delta_f_tol delta_x_tol max_iter
                   x_new mu_new lambda_new iter)"
  by pat_completeness auto
termination
  by (relation "measure (\<lambda>(fminbound, f, con, delta_f, rho, grad_tol, delta_f_tol, delta_x_tol,
        max_iter, x, mu0, lambda_0, iter). nat (max_iter - iter))")
    (auto simp: check_convergence_def split: if_splits)

definition al_init :: "constraints \<Rightarrow> vec \<Rightarrow> vec \<times> vec \<times> vec" where
  \<comment> \<open>The statements before the loop: zero multipliers of the sizes \<open>con(x)\<close> returns.\<close>
  "al_init con x =
     (let (g, h) = con x;
          mu0 = replicate (length g) 0;
          lambda_0 = replicate (length h) 0
      in (x, mu0, lambda_0))"

definition augmented_lagrangian ::
  "line_search \<Rightarrow> objective \<Rightarrow> constraints \<Rightarrow> vec \<Rightarrow> gradient \<Rightarrow> real \<Rightarrow> real \<Rightarrow> real \<Rightarrow> real \<Rightarrow>
   int \<Rightarrow> bool \<Rightarrow> error + solver_output" where
  "augmented_lagrangian fminbound f con x delta_f rho grad_tol delta_f_tol delta_x_tol max_iter
       full_output =
     (let (x, mu0, lambda_0) = al_init con x
      in map_sum id (return_output f full_output)
           (al_loop fminbound f con delta_f rho grad_tol delta_f_tol delta_x_tol max_iter
              x mu0 lambda_0 0))"


section \<open>The shared shape of the four loops\<close>

text \<open>
  Each loop repeats a pass (a step from the loop's state to the next one) and the
  convergence chain on the three quantities of that pass: the gradient norm at
  \<open>x_new\<close>, the norm of \<open>x_new - x\<close> and the change of \<open>f\<close>. The definitions
  below describe a run independently of the loops: \<open>steps_from\<close> is the state after
  \<open>k\<close> passes, whatever the chain says; \<open>flag_at\<close> is what the chain says in pass
  \<open>k + 1\<close>; \<open>converge\<close> is a loop over any step function, to which each of the four
  loops is proved equal. \<open>exit_flag_priority\<close> is the priority order in the words of the
  specification.
\<close>

declare sd_loop.simps [simp del] cg_loop.simps [simp del] qn_loop.simps [simp del]
declare al_loop.simps [simp del]

definition measures :: "objective \<Rightarrow> gradient \<Rightarrow> vec \<Rightarrow> vec \<Rightarrow> real \<times> real \<times> real" where
  "measures f delta_f x x_new =
     (linalg_norm (delta_f f x_new), linalg_norm (vsub x_new x), \<bar>f x_new - f x\<bar>)"

definition pass_flag ::
  "('s \<Rightarrow> 's \<Rightarrow> real \<times> real \<times> real) \<Rightarrow> real \<Rightarrow> real \<Rightarrow> real \<Rightarrow> int \<Rightarrow> int \<Rightarrow> 's \<Rightarrow> 's \<Rightarrow> int option" where
  "pass_flag meas grad_tol delta_f_tol delta_x_tol max_iter iter st st' =
     (case meas st st' of (grad_norm, step_norm, f_change) \<Rightarrow>
        check_convergence iter max_iter grad_norm grad_tol step_norm delta_x_tol f_change delta_f_tol)"

fun steps_from :: "(int \<Rightarrow> 's \<Rightarrow> error + 's) \<Rightarrow> int \<Rightarrow> 's \<Rightarrow> nat \<Rightarrow> error + 's" where
  "steps_from step iter st 0 = Inr st"
| "steps_from step iter st (Suc k) =
     (case step iter st of Inl e \<Rightarrow> Inl e | Inr st' \<Rightarrow> steps_from step (iter + 1) st' k)"

function converge ::
  "(int \<Rightarrow> 's \<Rightarrow> error + 's) \<Rightarrow> ('s \<Rightarrow> 's \<Rightarrow> real \<times> real \<times> real) \<Rightarrow> real \<Rightarrow> real \<Rightarrow> real \<Rightarrow> int \<Rightarrow>
   's \<Rightarrow> int \<Rightarrow> error + ('s \<times> 's \<times> int \<times> int)" where
  "converge step meas grad_tol delta_f_tol delta_x_tol max_iter st iter =
     (case step iter st of
        Inl e \<Rightarrow> Inl e
      | Inr st' \<Rightarrow>
         (case pass_flag meas grad_tol delta_f_tol delta_x_tol max_iter (iter + 1) st st' of
            Some flag \<Rightarrow> Inr (st, st', flag, iter + 1)
          | None \<Rightarrow> converge step meas grad_tol delta_f_tol delta_x_tol max_iter st' (iter + 1)))"
  by pat_completeness auto
termination
  by (relation "measure (\<lambda>(step, meas, grad_tol, delta_f_tol, delta_x_tol, max_iter, st, iter).
        nat (max_iter - iter))")
    (auto simp: pass_flag_def check_convergence_def split: if_splits prod.splits)

declare converge.simps [simp del]

definition flag_at ::
  "(int \<Rightarrow> 's \<Rightarrow> error + 's) \<Rightarrow> ('s \<Rightarrow> 's \<Rightarrow> real \<times> real \<times> real) \<Rightarrow> real \<Rightarrow> real \<Rightarrow> real \<Rightarrow> int \<Rightarrow>
   int \<Rightarrow> 's \<Rightarrow> nat \<Rightarrow> int option" where
  "flag_at step meas grad_tol delta_f_tol delta_x_tol max_iter iter st k =
     (case steps_from step iter st k of
        Inl e \<Rightarrow> None
      | Inr a \<Rightarrow>
         (case step (iter + int k) a of
            Inl e \<Rightarrow> None
          | Inr b \<Rightarrow> pass_flag meas grad_tol delta_f_tol delta_x_tol max_iter (iter + int k + 1) a b))"

definition exit_flag_priority ::
  "int \<Rightarrow> int \<Rightarrow> real \<times> real \<times> real \<Rightarrow> real \<Rightarrow> real \<Rightarrow> real \<Rightarrow> int \<Rightarrow> bool" where
  "exit_flag_priority iter max_iter m grad_tol delta_x_tol delta_f_tol flag =
     (case m of (grad_norm, step_norm, f_change) \<Rightarrow>
        flag \<in> {0, 1, 2, 3} \<and>
        (flag = 0) = (max_iter \<le> iter) \<and>
        (flag = 1) = (iter < max_iter \<and> grad_norm \<le> grad_tol) \<and>
        (flag = 2) = (iter < max_iter \<and> \<not> grad_norm \<le> grad_tol \<and> step_norm \<le> delta_x_tol) \<and>
        (flag = 3) = (iter < max_iter \<and> \<not> grad_norm \<le> grad_tol \<and> \<not> step_norm \<le> delta_x_tol \<and>
                      f_change \<le> delta_f_tol))"

definition sd_iterate :: "line_search \<Rightarrow> objective \<Rightarrow> gradient \<Rightarrow> vec \<Rightarrow> nat \<Rightarrow> error + vec" where
  "sd_iterate fminbound f delta_f x k = steps_from (\<lambda>iter. sd_step fminbound f delta_f) 0 x k"

definition sd_pass_flag ::
  "line_search \<Rightarrow> objective \<Rightarrow> gradient \<Rightarrow> real \<Rightarrow> real \<Rightarrow> real \<Rightarrow> int \<Rightarrow> vec \<Rightarrow> nat \<Rightarrow> int option" where
  "sd_pass_flag fminbound f delta_f grad_tol delta_f_tol delta_x_tol max_iter x k =
     flag_at (\<lambda>iter. sd_step fminbound f delta_f) (measures f delta_f)
       grad_tol delta_f_tol delta_x_tol max_iter 0 x k"

definition drop_sd :: "vec \<times> vec \<times> int \<times> int \<Rightarrow> vec \<times> int \<times> int" where
  "drop_sd r = (case r of (a, x_new, flag, iter) \<Rightarrow> (x_new, flag, iter))"

definition cg_meas :: "objective \<Rightarrow> gradient \<Rightarrow> vec \<times> vec \<times> vec \<Rightarrow> vec \<times> vec \<times> vec \<Rightarrow> real \<times> real \<times> real" where
  "cg_meas f delta_f st st' = (case st' of (x, x_new, s) \<Rightarrow> measures f delta_f x x_new)"

definition qn_meas ::
  "objective \<Rightarrow> gradient \<Rightarrow> (error + matrix) \<times> vec \<Rightarrow> (error + matrix) \<times> vec \<Rightarrow> real \<times> real \<times> real" where
  "qn_meas f delta_f st st' = measures f delta_f (snd st) (snd st')"

definition al_meas :: "objective \<Rightarrow> gradient \<Rightarrow> vec \<times> vec \<times> vec \<Rightarrow> vec \<times> vec \<times> vec \<Rightarrow> real \<times> real \<times> real" where
  "al_meas f delta_f st st' = measures f delta_f (fst st) (fst st')"

definition cg_iterate ::
  "line_search \<Rightarrow> objective \<Rightarrow> gradient \<Rightarrow> vec \<Rightarrow> nat \<Rightarrow> error + (vec \<times> vec \<times> vec)" where
  "cg_iterate fminbound f delta_f x k =
     (case cg_init fminbound f delta_f x of
        Inl e \<Rightarrow> Inl e
      | Inr st \<Rightarrow> steps_from (cg_step fminbound f delta_f) 0 st k)"

definition cg_pass_flag ::
  "line_search \<Rightarrow> objective \<Rightarrow> gradient \<Rightarrow> real \<Rightarrow> real \<Rightarrow> real \<Rightarrow> int \<Rightarrow> vec \<Rightarrow> nat \<Rightarrow> int option" where
  "cg_pass_flag fminbound f delta_f grad_tol delta_f_tol delta_x_tol max_iter x k =
     (case cg_init fminbound f delta_f x of
        Inl e \<Rightarrow> None
      | Inr st \<Rightarrow> flag_at (cg_step fminbound f delta_f) (cg_meas f delta_f)
                   grad_tol delta_f_tol delta_x_tol max_iter 0 st k)"

definition qn_iterate ::
  "line_search \<Rightarrow> objective \<Rightarrow> gradient \<Rightarrow> update_rule \<Rightarrow> vec \<Rightarrow> nat \<Rightarrow>
   error + ((error + matrix) \<times> vec)" where
  "qn_iterate fminbound f delta_f update_rule x k =
     steps_from (\<lambda>iter. qn_step fminbound f delta_f update_rule) 0 (Inr (eye (length x)), x) k"

definition qn_pass_flag ::
  "line_search \<Rightarrow> objective \<Rightarrow> gradient \<Rightarrow> real \<Rightarrow> real \<Rightarrow> real \<Rightarrow> int \<Rightarrow> update_rule \<Rightarrow> vec \<Rightarrow> nat \<Rightarrow>
   int option" where
  "qn_pass_flag fminbound f delta_f grad_tol delta_f_tol delta_x_tol max_iter update_rule x k =
     flag_at (\<lambda>iter. qn_step fminbound f delta_f update_rule) (qn_meas f delta_f)
       grad_tol delta_f_tol delta_x_tol max_iter 0 (Inr (eye (length x)), x) k"

definition al_iterate ::
  "line_search \<Rightarrow> objective \<Rightarrow> constraints \<Rightarrow> gradient \<Rightarrow> real \<Rightarrow> real \<Rightarrow> real \<Rightarrow> vec \<Rightarrow> nat \<Rightarrow>
   error + (vec \<times> vec \<times> vec)" where
  "al_iterate fminbound f con delta_f rho delta_f_tol delta_x_tol x k =
     steps_from (\<lambda>iter. al_step fminbound f con delta_f rho delta_f_tol delta_x_tol) 0
       (al_init con x) k"

definition al_pass_flag ::
  "line_search \<Rightarrow> objective \<Rightarrow> constraints \<Rightarrow> gradient \<Rightarrow> real \<Rightarrow> real \<Rightarrow> real \<Rightarrow> real \<Rightarrow> int \<Rightarrow> vec \<Rightarrow>
   nat \<Rightarrow> int option" where
  "al_pass_flag fminbound f con delta_f rho grad_tol delta_f_tol delta_x_tol max_iter x k =
     flag_at (\<lambda>iter. al_step fminbound f con delta_f rho delta_f_tol delta_x_tol) (al_meas f delta_f)
       grad_tol delta_f_tol delta_x_tol max_iter 0 (al_init con x) k"

definition drop_cg :: "(vec \<times> vec \<times> vec) \<times> (vec \<times> vec \<times> vec) \<times> int \<times> int \<Rightarrow> vec \<times> int \<times> int" where
  "drop_cg r = (case r of (a, (x, x_new, s), flag, iter) \<Rightarrow> (x_new, flag, iter))"

definition drop_qn ::
  "((error + matrix) \<times> vec) \<times> ((error + matrix) \<times> vec) \<times> int \<times> int \<Rightarrow> vec \<times> int \<times> int" where
  "drop_qn r = (case r of (a, (B, x_new), flag, iter) \<Rightarrow> (x_new, flag, iter))"

definition drop_al :: "(vec \<times> vec \<times> vec) \<times> (vec \<times> vec \<times> vec) \<times> int \<times> int \<Rightarrow> vec \<times> int \<times> int" where
  "drop_al r = (case r of (a, (x_new, mu_new, lambda_new), flag, iter) \<Rightarrow> (x_new, flag, iter))"

section \<open>The update formulas of the specification\<close>

text \<open>
  The increments of the specification, entry by entry, for \<open>n\<close>-dimensional
  \<open>delta_x\<close> and \<open>delta_g\<close> and an \<open>n \<times> n\<close> matrix \<open>B\<close>: \<open>inner\<close> is
  \<open>u\<cdot>v\<close>, \<open>row_times u B\<close> the row vector \<open>u\<cdot>B\<close>, \<open>times_col B v\<close> the column
  vector \<open>B\<cdot>v\<close> and \<open>quad_form u B v\<close> the number \<open>u\<cdot>B\<cdot>v\<close>.
\<close>

definition is_square :: "nat \<Rightarrow> matrix \<Rightarrow> bool" where
  "is_square n B = (length B = n \<and> list_all (\<lambda>row. length row = n) B)"

definition matrix_of :: "nat \<Rightarrow> (nat \<Rightarrow> nat \<Rightarrow> real) \<Rightarrow> matrix" where
  "matrix_of n F = map (\<lambda>i. map (\<lambda>j. F i j) [0..<n]) [0..<n]"

definition row_times :: "vec \<Rightarrow> matrix \<Rightarrow> nat \<Rightarrow> real" where
  "row_times u B j = (\<Sum>k\<leftarrow>[0..<length u]. u ! k * B ! k ! j)"

definition times_col :: "matrix \<Rightarrow> vec \<Rightarrow> nat \<Rightarrow> real" where
  "times_col B v i = (\<Sum>k\<leftarrow>[0..<length v]. B ! i ! k * v ! k)"

definition inner :: "vec \<Rightarrow> vec \<Rightarrow> real" where
  "inner u v = (\<Sum>k\<leftarrow>[0..<length u]. u ! k * v ! k)"

definition quad_form :: "vec \<Rightarrow> matrix \<Rightarrow> vec \<Rightarrow> real" where
  "quad_form u B v = (\<Sum>j\<leftarrow>[0..<length v]. row_times u B j * v ! j)"

definition BFGS_increment :: "matrix \<Rightarrow> vec \<Rightarrow> vec \<Rightarrow> nat \<Rightarrow> nat \<Rightarrow> real" where
  "BFGS_increment B delta_x delta_g i j =
     (1 + quad_form delta_g B delta_g / inner delta_g delta_x) * (delta_x ! i * delta_x ! j)
        / inner delta_x delta_g
     - (delta_x ! i * row_times delta_g B j + row_times delta_g B i * delta_x ! j)
        / inner delta_x delta_g"

definition DFP_increment :: "matrix \<Rightarrow> vec \<Rightarrow> vec \<Rightarrow> nat \<Rightarrow> nat \<Rightarrow> real" where
  "DFP_increment B delta_x delta_g i j =
     delta_x ! i * delta_x ! j / inner delta_x delta_g
     - times_col B delta_g i * times_col B delta_g j / quad_form delta_g B delta_g"

text \<open>
  What some lemmas assume of the caller's capabilities: a line search that is never
  worse than the step of length zero (an exact minimizer over \<open>[0, 1]\<close> is not; one
  that evaluates interior points only can be), a gradient estimator that returns a
  vector of the dimension of its argument, and an update rule that returns an
  \<open>n \<times> n\<close> increment for \<open>n\<close>-dimensional arguments. Under them the iterates of a
  solver never increase the objective, so that the last iterate is the best one.
\<close>

definition no_worse_than_zero_step :: "line_search \<Rightarrow> bool" where
  "no_worse_than_zero_step fminbound = (\<forall>func. func (fminbound func 0 1) \<le> func 0)"

definition keeps_dimension :: "gradient \<Rightarrow> bool" where
  "keeps_dimension delta_f = (\<forall>f x. length (delta_f f x) = length x)"

definition keeps_square :: "update_rule \<Rightarrow> bool" where
  "keeps_square update_rule =
     (\<forall>n B delta_x delta_g M.
        is_square n B \<and> length delta_x = n \<and> length delta_g = n \<and>
        update_rule B delta_x delta_g = Inr M \<longrightarrow> is_square n M)"

definition qn_shape :: "(error + matrix) \<times> vec \<Rightarrow> bool" where
  \<comment> \<open>The shape of the state of \<open>quasi_newton\<close>: a \<open>B\<close> that was computed is \<open>n \<times> n\<close>.\<close>
  "qn_shape st = (case fst st of Inl e \<Rightarrow> True | Inr B \<Rightarrow> is_square (length (snd st)) B)"

definition cg_shape :: "vec \<times> vec \<times> vec \<Rightarrow> bool" where
  \<comment> \<open>The shape of the state of \<open>conjugate_gradient\<close>.\<close>
  "cg_shape st = (case st of (x, x_new, s) \<Rightarrow> length s = length x_new)"

text \<open>The conjugate-gradient direction in the words of the specification.\<close>

definition fletcher_reeves_direction ::
  "objective \<Rightarrow> gradient \<Rightarrow> nat \<Rightarrow> nat \<Rightarrow> vec \<Rightarrow> vec \<Rightarrow> vec \<Rightarrow> vec" where
  "fletcher_reeves_direction f delta_f n iteration x x_new s_prev =
     (if iteration mod n = 0 then vneg (delta_f f x_new)
      else vadd (vneg (delta_f f x_new))
             (smul ((linalg_norm (delta_f f x_new))\<^sup>2 / (linalg_norm (delta_f f x))\<^sup>2) s_prev))"

section \<open>Example inputs\<close>

definition test_f :: objective where
  \<comment> \<open>The notebook's test objective \<open>f\<close>.\<close>
  "test_f x = - (x ! 0 + x ! 1)"

definition fminbound_grid :: line_search where
  \<comment> \<open>A stand-in for the minimizer in the examples: the best of the two ends of the
      interval and its midpoint.\<close>
  "fminbound_grid func x1 x2 =
     (let xm = (x1 + x2) / 2
      in if func xm < func x1 \<and> func xm \<le> func x2 then xm
         else if func x2 < func x1 then x2 else x1)"

definition fminbound_interior :: line_search where
  \<comment> \<open>A stand-in for a minimizer that, like \<open>opt.fminbound\<close>, evaluates the function
      at interior points of the interval only: the best of the three quartile points.\<close>
  "fminbound_interior func x1 x2 =
     (let xa = x1 + (x2 - x1) / 4; xm = x1 + (x2 - x1) / 2; xb = x1 + 3 * (x2 - x1) / 4
      in if func xa \<le> func xm \<and> func xa \<le> func xb then xa
         else if func xm \<le> func xb then xm else xb)"

definition sq_f :: objective where
  \<comment> \<open>An example objective: the sum of the squares of the entries.\<close>
  "sq_f x = sum_list (map (\<lambda>a. a\<^sup>2) x)"

definition sq_grad :: gradient where
  \<comment> \<open>The exact gradient of \<open>sq_f\<close>, as a caller may pass it for \<open>delta_f\<close>.\<close>
  "sq_grad f x = map (\<lambda>a. 2 * a) x"

definition fd_grad :: gradient where
  \<comment> \<open>An example gradient estimator: what \<open>forward_diff\<close> returns for \<open>h = 1\<close>.\<close>
  "fd_grad f x = map (\<lambda>i. f (x[i := x ! i + 1]) - f x) [0..<length x]"

definition al_f :: objective where
  \<comment> \<open>An example objective in one variable.\<close>
  "al_f x = - (x ! 0)"

definition al_con :: constraints where
  \<comment> \<open>Example constraints in one variable: two inequalities and one equality.\<close>
  "al_con x = ([x ! 0 - 2, x ! 0 - 1 / 2], [x ! 0 - 3])"

section \<open>Runs and passes\<close>

lemma steps_from_Suc:
  "steps_from step iter st (Suc k) =
     (case steps_from step iter st k of Inl e \<Rightarrow> Inl e | Inr a \<Rightarrow> step (iter + int k) a)"
proof (induction k arbitrary: iter st)
  case 0
  show ?case by (simp split: sum.splits)
next
  case (Suc k)
  show ?case
  proof (cases "step iter st")
    case (Inl e)
    then show ?thesis by simp
  next
    case (Inr st')
    have "steps_from step iter st (Suc (Suc k)) = steps_from step (iter + 1) st' (Suc k)"
      using Inr by simp
    also have "\<dots> = (case steps_from step (iter + 1) st' k of
                       Inl e \<Rightarrow> Inl e | Inr a \<Rightarrow> step (iter + 1 + int k) a)"
      by (rule Suc.IH)
    finally show ?thesis using Inr by (simp add: add.commute add.left_commute split: sum.splits)
  qed
qed

lemma flag_at_0:
  "step iter st = Inr st' \<Longrightarrow>
   flag_at step meas gt dft dxt mi iter st 0 = pass_flag meas gt dft dxt mi (iter + 1) st st'"
  by (simp add: flag_at_def)

lemma flag_at_Suc:
  "step iter st = Inr st' \<Longrightarrow>
   flag_at step meas gt dft dxt mi iter st (Suc k) = flag_at step meas gt dft dxt mi (iter + 1) st' k"
  by (simp add: flag_at_def add.commute add.left_commute split: sum.splits)

lemma converge_sound:
  "converge step meas gt dft dxt mi st iter = Inr (a, b, flag, iter') \<Longrightarrow>
   \<exists>k. iter' = iter + int k + 1 \<and> steps_from step iter st k = Inr a \<and>
       step (iter + int k) a = Inr b \<and>
       pass_flag meas gt dft dxt mi iter' a b = Some flag \<and>
       (\<forall>j<k. flag_at step meas gt dft dxt mi iter st j = None)"
proof (induction step meas gt dft dxt mi st iter rule: converge.induct)
  case (1 step meas gt dft dxt mi st iter)
  from "1.prems" obtain st' where st': "step iter st = Inr st'"
    by (subst (asm) converge.simps) (auto split: sum.splits)
  show ?case
  proof (cases "pass_flag meas gt dft dxt mi (iter + 1) st st'")
    case (Some fl)
    with "1.prems" st' have "a = st" "b = st'" "flag = fl" "iter' = iter + 1"
      by (subst (asm) converge.simps, simp)+
    with Some st' have "iter' = iter + int 0 + 1 \<and> steps_from step iter st 0 = Inr a \<and>
       step (iter + int 0) a = Inr b \<and> pass_flag meas gt dft dxt mi iter' a b = Some flag \<and>
       (\<forall>j<0. flag_at step meas gt dft dxt mi iter st j = None)"
      by simp
    then show ?thesis by blast
  next
    case None
    with "1.prems" st' have "converge step meas gt dft dxt mi st' (iter + 1) = Inr (a, b, flag, iter')"
      by (subst (asm) converge.simps) simp
    from "1.IH"[OF st' None this] obtain k where k:
      "iter' = iter + 1 + int k + 1" "steps_from step (iter + 1) st' k = Inr a"
      "step (iter + 1 + int k) a = Inr b" "pass_flag meas gt dft dxt mi iter' a b = Some flag"
      "\<forall>j<k. flag_at step meas gt dft dxt mi (iter + 1) st' j = None"
      by blast
    have "\<forall>j<Suc k. flag_at step meas gt dft dxt mi iter st j = None"
    proof (intro allI impI)
      fix j assume "j < Suc k"
      then show "flag_at step meas gt dft dxt mi iter st j = None"
        using k(5) None st' by (cases j) (simp_all add: flag_at_0 flag_at_Suc)
    qed
    with k st' have "iter' = iter + int (Suc k) + 1 \<and> steps_from step iter st (Suc k) = Inr a \<and>
       step (iter + int (Suc k)) a = Inr b \<and> pass_flag meas gt dft dxt mi iter' a b = Some flag \<and>
       (\<forall>j<Suc k. flag_at step meas gt dft dxt mi iter st j = None)"
      by (simp add: add.commute add.left_commute)
    then show ?thesis by blast
  qed
qed

lemma converge_complete:
  "steps_from step iter st k = Inr a \<Longrightarrow> step (iter + int k) a = Inr b \<Longrightarrow>
   (\<forall>j<k. flag_at step meas gt dft dxt mi iter st j = None) \<Longrightarrow>
   pass_flag meas gt dft dxt mi (iter + int k + 1) a b = Some flag \<Longrightarrow>
   converge step meas gt dft dxt mi st iter = Inr (a, b, flag, iter + int k + 1)"
proof (induction k arbitrary: iter st)
  case 0
  then show ?case by (subst converge.simps) simp
next
  case (Suc k)
  from Suc.prems(1) obtain st' where st': "step iter st = Inr st'"
    and rest: "steps_from step (iter + 1) st' k = Inr a"
    by (auto split: sum.splits)
  from Suc.prems(3) have "flag_at step meas gt dft dxt mi iter st 0 = None" by blast
  with st' have none: "pass_flag meas gt dft dxt mi (iter + 1) st st' = None"
    by (simp add: flag_at_0)
  have later: "\<forall>j<k. flag_at step meas gt dft dxt mi (iter + 1) st' j = None"
  proof (intro allI impI)
    fix j assume "j < k"
    then have "flag_at step meas gt dft dxt mi iter st (Suc j) = None"
      using Suc.prems(3) by simp
    then show "flag_at step meas gt dft dxt mi (iter + 1) st' j = None"
      using st' by (simp add: flag_at_Suc)
  qed
  have "converge step meas gt dft dxt mi st' (iter + 1) = Inr (a, b, flag, iter + 1 + int k + 1)"
    using Suc.prems(2,4) by (intro Suc.IH[OF rest _ later]) (simp_all add: add.commute add.left_commute)
  then show ?case using st' none
    by (subst converge.simps) (simp add: add.commute add.left_commute)
qed

lemma converge_error:
  "converge step meas gt dft dxt mi st iter = Inl e \<Longrightarrow>
   \<exists>k. steps_from step iter st (Suc k) = Inl e \<and>
       (\<forall>j<k. flag_at step meas gt dft dxt mi iter st j = None)"
proof (induction step meas gt dft dxt mi st iter rule: converge.induct)
  case (1 step meas gt dft dxt mi st iter)
  show ?case
  proof (cases "step iter st")
    case (Inl e')
    with "1.prems" have "e' = e" by (subst (asm) converge.simps) simp
    with Inl have "steps_from step iter st (Suc 0) = Inl e \<and>
       (\<forall>j<0. flag_at step meas gt dft dxt mi iter st j = None)" by simp
    then show ?thesis by blast
  next
    case (Inr st')
    show ?thesis
    proof (cases "pass_flag meas gt dft dxt mi (iter + 1) st st'")
      case (Some fl)
      with "1.prems" Inr show ?thesis by (subst (asm) converge.simps) simp
    next
      case None
      with "1.prems" Inr have "converge step meas gt dft dxt mi st' (iter + 1) = Inl e"
        by (subst (asm) converge.simps) simp
      from "1.IH"[OF Inr None this] obtain k where k:
        "steps_from step (iter + 1) st' (Suc k) = Inl e"
        "\<forall>j<k. flag_at step meas gt dft dxt mi (iter + 1) st' j = None"
        by blast
      have "\<forall>j<Suc k. flag_at step meas gt dft dxt mi iter st j = None"
      proof (intro allI impI)
        fix j assume "j < Suc k"
        then show "flag_at step meas gt dft dxt mi iter st j = None"
          using k(2) None Inr by (cases j) (simp_all add: flag_at_0 flag_at_Suc)
      qed
      moreover have "steps_from step iter st (Suc (Suc k)) = Inl e"
        using k(1) Inr by simp
      ultimately show ?thesis by blast
    qed
  qed
qed

lemma pass_flag_priority:
  "pass_flag meas gt dft dxt mi iter a b = Some flag \<longleftrightarrow>
   exit_flag_priority iter mi (meas a b) gt dxt dft flag"
  by (cases "meas a b") (auto simp: pass_flag_def exit_flag_priority_def check_convergence_def)

lemma sd_loop_converge:
  "sd_loop fm f df gt dft dxt mi x iter =
   map_sum id drop_sd
     (converge (\<lambda>iter. sd_step fm f df) (measures f df) gt dft dxt mi x iter)"
proof (induction fm f df gt dft dxt mi x iter rule: sd_loop.induct)
  case (1 fm f df gt dft dxt mi x iter)
  show ?case
  proof (cases "sd_step fm f df x")
    case (Inl e)
    then show ?thesis by (subst sd_loop.simps, subst converge.simps) simp
  next
    case (Inr x_new)
    let ?chk = "check_convergence (iter + 1) mi (linalg_norm (df f x_new)) gt
          (linalg_norm (vsub x_new x)) dxt \<bar>f x_new - f x\<bar> dft"
    have pf: "pass_flag (measures f df) gt dft dxt mi (iter + 1) x x_new = ?chk"
      by (simp add: pass_flag_def measures_def)
    show ?thesis
    proof (cases ?chk)
      case (Some flag)
      with Inr pf show ?thesis
        by (subst sd_loop.simps, subst converge.simps) (simp add: drop_sd_def)
    next
      case None
      have L: "sd_loop fm f df gt dft dxt mi x iter = sd_loop fm f df gt dft dxt mi x_new (iter + 1)"
        using Inr None by (subst sd_loop.simps) simp
      have R: "converge (\<lambda>iter. sd_step fm f df) (measures f df) gt dft dxt mi x iter =
               converge (\<lambda>iter. sd_step fm f df) (measures f df) gt dft dxt mi x_new (iter + 1)"
        using Inr None pf by (subst converge.simps) simp
      show ?thesis unfolding L R by (rule "1.IH"[OF Inr refl refl None])
    qed
  qed
qed

lemma cg_loop_converge:
  "cg_loop fm f df gt dft dxt mi x x_new s iter =
   map_sum id drop_cg
     (converge (cg_step fm f df) (cg_meas f df) gt dft dxt mi (x, x_new, s) iter)"
proof (induction fm f df gt dft dxt mi x x_new s iter rule: cg_loop.induct)
  case (1 fm f df gt dft dxt mi x x_new s iter)
  show ?case
  proof (cases "cg_step fm f df iter (x, x_new, s)")
    case (Inl e)
    then show ?thesis by (subst cg_loop.simps, subst converge.simps) simp
  next
    case (Inr st')
    obtain x' x_new' s' where st': "st' = (x', x_new', s')" by (cases st') auto
    let ?chk = "check_convergence (iter + 1) mi (linalg_norm (df f x_new')) gt
          (linalg_norm (vsub x_new' x')) dxt \<bar>f x_new' - f x'\<bar> dft"
    have pf: "pass_flag (cg_meas f df) gt dft dxt mi (iter + 1) (x, x_new, s) st' = ?chk"
      by (simp add: pass_flag_def cg_meas_def measures_def st')
    show ?thesis
    proof (cases ?chk)
      case (Some flag)
      with Inr pf st' show ?thesis
        by (subst cg_loop.simps, subst converge.simps) (simp add: drop_cg_def)
    next
      case None
      have L: "cg_loop fm f df gt dft dxt mi x x_new s iter =
               cg_loop fm f df gt dft dxt mi x' x_new' s' (iter + 1)"
        using Inr None st' by (subst cg_loop.simps) simp
      have R: "converge (cg_step fm f df) (cg_meas f df) gt dft dxt mi (x, x_new, s) iter =
               converge (cg_step fm f df) (cg_meas f df) gt dft dxt mi (x', x_new', s') (iter + 1)"
        using Inr None pf st' by (subst converge.simps) simp
      show ?thesis unfolding L R
        by (rule "1.IH"[OF Inr[unfolded st'] refl refl refl refl None])
    qed
  qed
qed

lemma qn_loop_converge:
  "qn_loop fm f df gt dft dxt mi upd B x iter =
   map_sum id drop_qn
     (converge (\<lambda>iter. qn_step fm f df upd) (qn_meas f df) gt dft dxt mi (B, x) iter)"
proof (induction fm f df gt dft dxt mi upd B x iter rule: qn_loop.induct)
  case (1 fm f df gt dft dxt mi upd B x iter)
  show ?case
  proof (cases "qn_step fm f df upd (B, x)")
    case (Inl e)
    then show ?thesis by (subst qn_loop.simps, subst converge.simps) simp
  next
    case (Inr st')
    obtain B' x_new where st': "st' = (B', x_new)" by (cases st') auto
    let ?chk = "check_convergence (iter + 1) mi (linalg_norm (df f x_new)) gt
          (linalg_norm (vsub x_new x)) dxt \<bar>f x_new - f x\<bar> dft"
    have pf: "pass_flag (qn_meas f df) gt dft dxt mi (iter + 1) (B, x) st' = ?chk"
      by (simp add: pass_flag_def qn_meas_def measures_def st')
    show ?thesis
    proof (cases ?chk)
      case (Some flag)
      with Inr pf st' show ?thesis
        by (subst qn_loop.simps, subst converge.simps) (simp add: drop_qn_def)
    next
      case None
      have L: "qn_loop fm f df gt dft dxt mi upd B x iter =
               qn_loop fm f df gt dft dxt mi upd B' x_new (iter + 1)"
        using Inr None st' by (subst qn_loop.simps) simp
      have R: "converge (\<lambda>iter. qn_step fm f df upd) (qn_meas f df) gt dft dxt mi (B, x) iter =
               converge (\<lambda>iter. qn_step fm f df upd) (qn_meas f df) gt dft dxt mi (B', x_new) (iter + 1)"
        using Inr None pf st' by (subst converge.simps) simp
      show ?thesis unfolding L R
        by (rule "1.IH"[OF Inr[unfolded st'] refl refl refl None])
    qed
  qed
qed

lemma al_loop_converge:
  "al_loop fm f con df rho gt dft dxt mi x mu0 lambda_0 iter =
   map_sum id drop_al
     (converge (\<lambda>iter. al_step fm f con df rho dft dxt) (al_meas f df) gt dft dxt mi
        (x, mu0, lambda_0) iter)"
proof (induction fm f con df rho gt dft dxt mi x mu0 lambda_0 iter rule: al_loop.induct)
  case (1 fm f con df rho gt dft dxt mi x mu0 lambda_0 iter)
  show ?case
  proof (cases "al_step fm f con df rho dft dxt (x, mu0, lambda_0)")
    case (Inl e)
    then show ?thesis by (subst al_loop.simps, subst converge.simps) simp
  next
    case (Inr st')
    obtain x_new mu_new lambda_new where st': "st' = (x_new, mu_new, lambda_new)"
      by (cases st') auto
    let ?chk = "check_convergence (iter + 1) mi (linalg_norm (df f x_new)) gt
          (linalg_norm (vsub x_new x)) dxt \<bar>f x_new - f x\<bar> dft"
    have pf: "pass_flag (al_meas f df) gt dft dxt mi (iter + 1) (x, mu0, lambda_0) st' = ?chk"
      by (simp add: pass_flag_def al_meas_def measures_def st')
    show ?thesis
    proof (cases ?chk)
      case (Some flag)
      with Inr pf st' show ?thesis
        by (subst al_loop.simps, subst converge.simps) (simp add: drop_al_def)
    next
      case None
      have L: "al_loop fm f con df rho gt dft dxt mi x mu0 lambda_0 iter =
               al_loop fm f con df rho gt dft dxt mi x_new mu_new lambda_new (iter + 1)"
        using Inr None st' by (subst al_loop.simps) simp
      have R: "converge (\<lambda>iter. al_step fm f con df rho dft dxt) (al_meas f df) gt dft dxt mi
                 (x, mu0, lambda_0) iter =
               converge (\<lambda>iter. al_step fm f con df rho dft dxt) (al_meas f df) gt dft dxt mi
                 (x_new, mu_new, lambda_new) (iter + 1)"
        using Inr None pf st' by (subst converge.simps) simp
      show ?thesis unfolding L R
        by (rule "1.IH"[OF Inr[unfolded st'] refl refl refl refl None])
    qed
  qed
qed

section \<open>Loops over indices\<close>

lemma fold_index_sum:
  "fold (\<lambda>i s. s + F (xs ! i)) [0..<length xs] (a::real) = a + sum_list (map F xs)"
proof (induction xs rule: rev_induct)
  case Nil
  then show ?case by simp
next
  case (snoc x xs)
  have "fold (\<lambda>i s. s + F ((xs @ [x]) ! i)) [0..<length xs] a
      = fold (\<lambda>i s. s + F (xs ! i)) [0..<length xs] a"
    by (rule fold_cong) (simp_all add: nth_append)
  with snoc show ?case by simp
qed

lemma forward_diff_fold:
  "k \<le> length x \<Longrightarrow>
   fold (forward_diff_body f x h) [0..<k] (replicate (length x) 0, 0) =
     (map (\<lambda>i. (f (x[i := x ! i + h]) - f x) / h) [0..<k] @ replicate (length x - k) 0, 2 * k)"
proof (induction k)
  case 0
  then show ?case by simp
next
  case (Suc k)
  then have "k < length x" by simp
  then have "replicate (length x - k) (0::real) = 0 # replicate (length x - Suc k) 0"
    by (metis Suc_diff_Suc replicate_Suc)
  with Suc show ?case
    by (simp add: forward_diff_body_def call_def list_update_append)
qed

section \<open>Matrix operations entry by entry\<close>

lemma sum_upt_cong:
  "(\<And>k. k < n \<Longrightarrow> f k = (g k :: real)) \<Longrightarrow> (\<Sum>k\<leftarrow>[0..<n]. f k) = (\<Sum>k\<leftarrow>[0..<n]. g k)"
  by (rule arg_cong[where f = sum_list]) simp

lemma matrix_of_cong:
  "(\<And>i j. i < n \<Longrightarrow> j < n \<Longrightarrow> F i j = G i j) \<Longrightarrow> matrix_of n F = matrix_of n G"
  by (simp add: matrix_of_def)

lemma dot_inner: "length u = length v \<Longrightarrow> dot u v = inner u v"
proof -
  assume l: "length u = length v"
  have "map2 (*) u v = map (\<lambda>k. u ! k * v ! k) [0..<length u]"
    by (rule nth_equalityI) (simp_all add: l)
  then show ?thesis by (simp add: dot_def inner_def)
qed

lemma is_square_nth: "is_square n B \<Longrightarrow> i < n \<Longrightarrow> length (B ! i) = n"
  by (simp add: is_square_def list_all_length)

lemma transpose_square:
  assumes "is_square n B"
  shows "transpose B = map (\<lambda>j. map (\<lambda>k. B ! k ! j) [0..<n]) [0..<n]"
proof -
  have "transpose B = map (\<lambda>i. map (\<lambda>j. B ! j ! i) [0..<length B]) [0..<n]"
    using assms by (intro transpose_rectangle) (auto simp: is_square_def list_all_length)
  then show ?thesis using assms by (simp add: is_square_def)
qed

lemma vec_mat_square:
  assumes "is_square n B" "length u = n"
  shows "vec_mat u B = map (row_times u B) [0..<n]"
proof -
  have "dot u (map (\<lambda>k. B ! k ! j) [0..<n]) = row_times u B j" for j
    using assms(2) by (simp add: dot_inner inner_def row_times_def) (rule sum_upt_cong, simp)
  then show ?thesis
    by (simp add: vec_mat_def transpose_square[OF assms(1)])
qed

lemma mat_vec_square:
  assumes "is_square n B" "length v = n"
  shows "mat_vec B v = map (times_col B v) [0..<n]"
proof (rule nth_equalityI)
  show "length (mat_vec B v) = length (map (times_col B v) [0..<n])"
    using assms by (simp add: mat_vec_def is_square_def)
next
  fix i assume "i < length (mat_vec B v)"
  then have i: "i < n" using assms by (simp add: mat_vec_def is_square_def)
  then have "length (B ! i) = length v" using assms by (simp add: is_square_nth)
  then have "dot (B ! i) v = times_col B v i"
    by (simp add: dot_inner inner_def times_col_def)
  with i assms show "mat_vec B v ! i = map (times_col B v) [0..<n] ! i"
    by (simp add: mat_vec_def is_square_def)
qed

lemma quad_form_dot:
  assumes "is_square n B" "length u = n" "length v = n"
  shows "dot (vec_mat u B) v = quad_form u B v"
  using assms
  by (simp add: vec_mat_square dot_inner inner_def quad_form_def) (rule sum_upt_cong, simp)

lemma outer_matrix_of:
  "length u = n \<Longrightarrow> length v = n \<Longrightarrow> outer u v = matrix_of n (\<lambda>i j. u ! i * v ! j)"
  unfolding outer_def matrix_of_def
  by (rule nth_equalityI) (auto intro!: nth_equalityI)

lemma outer_map_matrix_of:
  "length u = n \<Longrightarrow> outer u (map g [0..<n]) = matrix_of n (\<lambda>i j. u ! i * g j)"
  "length v = n \<Longrightarrow> outer (map g [0..<n]) v = matrix_of n (\<lambda>i j. g i * v ! j)"
  "outer (map g [0..<n]) (map g' [0..<n]) = matrix_of n (\<lambda>i j. g i * g' j)"
  unfolding outer_def matrix_of_def
  by (rule nth_equalityI; auto intro!: nth_equalityI)+

lemma matrix_of_ops:
  "mat_add (matrix_of n F) (matrix_of n G) = matrix_of n (\<lambda>i j. F i j + G i j)"
  "mat_sub (matrix_of n F) (matrix_of n G) = matrix_of n (\<lambda>i j. F i j - G i j)"
  "mat_smul c (matrix_of n F) = matrix_of n (\<lambda>i j. c * F i j)"
  "mat_sdiv (matrix_of n F) d = matrix_of n (\<lambda>i j. F i j / d)"
  unfolding mat_add_def mat_sub_def mat_smul_def mat_sdiv_def matrix_of_def vadd_def vsub_def smul_def
  by (rule nth_equalityI; auto intro!: nth_equalityI)+

lemma BFGS_update_increment:
  assumes sq: "is_square n B" and dx: "length delta_x = n" and dg: "length delta_g = n"
    and curv: "inner delta_x delta_g \<noteq> 0"
  shows "BFGS_update B delta_x delta_g = Inr (matrix_of n (BFGS_increment B delta_x delta_g))"
proof -
  have comm: "inner delta_g delta_x = inner delta_x delta_g"
    using dx dg by (simp add: inner_def mult.commute)
  have q: "dot (map (row_times delta_g B) [0..<n]) delta_g = quad_form delta_g B delta_g"
    using quad_form_dot[OF sq dg dg] by (simp add: vec_mat_square[OF sq dg])
  have "BFGS_update B delta_x delta_g = Inr (matrix_of n (\<lambda>i j.
     (1 + quad_form delta_g B delta_g / inner delta_g delta_x) * (delta_x ! i * delta_x ! j)
        / inner delta_x delta_g
     - (delta_x ! i * row_times delta_g B j + row_times delta_g B i * delta_x ! j)
        / inner delta_x delta_g))"
    using curv
    by (simp add: BFGS_update_def vec_mat_square[OF sq dg] q dot_inner dx dg comm
        outer_matrix_of[OF dx dx] outer_map_matrix_of matrix_of_ops)
  also have "matrix_of n (\<lambda>i j.
     (1 + quad_form delta_g B delta_g / inner delta_g delta_x) * (delta_x ! i * delta_x ! j)
        / inner delta_x delta_g
     - (delta_x ! i * row_times delta_g B j + row_times delta_g B i * delta_x ! j)
        / inner delta_x delta_g) = matrix_of n (BFGS_increment B delta_x delta_g)"
    by (rule matrix_of_cong) (simp add: BFGS_increment_def)
  finally show ?thesis .
qed

lemma DFP_update_increment:
  assumes sq: "is_square n B" and dx: "length delta_x = n" and dg: "length delta_g = n"
    and curv: "inner delta_x delta_g \<noteq> 0" and quad: "quad_form delta_g B delta_g \<noteq> 0"
  shows "DFP_update B delta_x delta_g = Inr (matrix_of n (DFP_increment B delta_x delta_g))"
proof -
  have "DFP_update B delta_x delta_g = Inr (matrix_of n (\<lambda>i j.
     delta_x ! i * delta_x ! j / inner delta_x delta_g
     - times_col B delta_g i * times_col B delta_g j / quad_form delta_g B delta_g))"
    using curv quad
    by (simp add: DFP_update_def dot_inner dx dg quad_form_dot[OF sq dg dg]
      mat_vec_square[OF sq dg] outer_matrix_of[OF dx dx] outer_map_matrix_of
      matrix_of_ops)
  also have "matrix_of n (\<lambda>i j.
     delta_x ! i * delta_x ! j / inner delta_x delta_g
     - times_col B delta_g i * times_col B delta_g j / quad_form delta_g B delta_g)
     = matrix_of n (DFP_increment B delta_x delta_g)"
    by (rule matrix_of_cong) (simp add: DFP_increment_def)
  finally show ?thesis .
qed

section \<open>Rounding to float64\<close>

lemma bit_length_bounds:
  "0 < n \<Longrightarrow> 1 \<le> bit_length n \<and> 2 ^ nat (bit_length n - 1) \<le> n \<and> n < 2 ^ nat (bit_length n)"
proof (induction n rule: bit_length.induct)
  case (1 n)
  show ?case
  proof (cases "n div 2 \<le> 0")
    case True
    with 1(2) have "n = 1" by linarith
    then show ?thesis by (simp add: bit_length.simps[of 1] bit_length.simps[of 0])
  next
    case False
    define k where "k = bit_length (n div 2)"
    from False 1 have IH: "1 \<le> k" "2 ^ nat (k - 1) \<le> n div 2" "n div 2 < 2 ^ nat k"
      by (simp_all add: k_def)
    have bl: "bit_length n = 1 + k"
      using 1(2) by (simp add: bit_length.simps[of n] k_def)
    have p: "(2::int) ^ nat k = 2 * 2 ^ nat (k - 1)"
      using IH(1) by (metis Suc_nat_eq_nat_zadd1 add.commute diff_add_cancel diff_ge_0_iff_ge power_Suc)
    have p2: "(2::int) ^ nat (1 + k) = 2 * 2 ^ nat k"
      using IH(1) by (simp add: nat_add_distrib)
    have "1 + k - 1 = k" by simp
    with IH p p2 show ?thesis unfolding bl by simp linarith
  qed
qed

lemma round_half_even_error: "\<bar>of_int (round_half_even z) - z\<bar> \<le> 1 / 2"
  unfolding round_half_even_def Let_def by (simp; linarith)

lemma binary_exponent_bounds:
  assumes "y \<noteq> 0"
  shows "power_int 2 (binary_exponent y) \<le> \<bar>y\<bar> \<and> \<bar>y\<bar> < power_int 2 (binary_exponent y + 1)"
proof (cases "1 \<le> \<bar>y\<bar>")
  case True
  define n where "n = \<lfloor>\<bar>y\<bar>\<rfloor>"
  define k where "k = bit_length n"
  have n: "0 < n" using True by (simp add: n_def)
  from bit_length_bounds[OF n] have k: "1 \<le> k" "2 ^ nat (k - 1) \<le> n" "n < 2 ^ nat k"
    by (simp_all add: k_def)
  have e: "binary_exponent y = k - 1"
    using True by (simp add: binary_exponent_def n_def k_def)
  have "real_of_int (2 ^ nat (k - 1)) \<le> real_of_int n" using k(2) by (rule of_int_le_iff[THEN iffD2])
  also have "real_of_int n \<le> \<bar>y\<bar>" by (simp add: n_def)
  finally have lo: "power_int 2 (k - 1) \<le> \<bar>y\<bar>"
    using k(1) by (simp add: power_int_def)
  have "n + 1 \<le> 2 ^ nat k" using k(3) by simp
  then have "real_of_int (n + 1) \<le> real_of_int (2 ^ nat k)" by (rule of_int_le_iff[THEN iffD2])
  moreover have "\<bar>y\<bar> < real_of_int (n + 1)" unfolding n_def by linarith
  ultimately have hi: "\<bar>y\<bar> < power_int 2 (k - 1 + 1)"
    using k(1) by (simp add: power_int_def)
  from lo hi show ?thesis by (simp only: e)
next
  case False
  define z where "z = 1 / \<bar>y\<bar>"
  have ypos: "0 < \<bar>y\<bar>" using assms by simp
  have z1: "1 < z" using False ypos by (simp add: z_def)
  define m where "m = \<lceil>z\<rceil> - 1"
  define k where "k = bit_length m"
  have m: "0 < m" using z1 unfolding m_def by linarith
  from bit_length_bounds[OF m] have k: "1 \<le> k" "2 ^ nat (k - 1) \<le> m" "m < 2 ^ nat k"
    by (simp_all add: k_def)
  have e: "binary_exponent y = - k"
    using False by (simp add: binary_exponent_def m_def k_def z_def)
  have "m + 1 \<le> 2 ^ nat k" using k(3) by simp
  then have "real_of_int (m + 1) \<le> real_of_int (2 ^ nat k)" by (rule of_int_le_iff[THEN iffD2])
  moreover have "z \<le> real_of_int (m + 1)" unfolding m_def by simp
  ultimately have "z \<le> 2 ^ nat k" by simp
  then have "1 / 2 ^ nat k \<le> \<bar>y\<bar>"
    using ypos unfolding z_def by (simp add: field_simps)
  then have lo: "power_int 2 (- k) \<le> \<bar>y\<bar>"
    using k(1) by (simp add: power_int_def field_simps)
  have "real_of_int (2 ^ nat (k - 1)) \<le> real_of_int m" using k(2) by (rule of_int_le_iff[THEN iffD2])
  then have "2 ^ nat (k - 1) \<le> real_of_int m" by simp
  moreover have "real_of_int m < z" unfolding m_def by linarith
  ultimately have "2 ^ nat (k - 1) < z" by linarith
  then have "\<bar>y\<bar> < 1 / 2 ^ nat (k - 1)"
    using ypos unfolding z_def by (simp add: field_simps)
  moreover have "power_int (2::real) (- k + 1) = 1 / 2 ^ nat (k - 1)"
  proof (cases "k = 1")
    case True
    then show ?thesis by simp
  next
    case False
    with k(1) have "- k + 1 < 0" by simp
    then show ?thesis by (simp add: power_int_def field_simps)
  qed
  ultimately have hi: "\<bar>y\<bar> < power_int 2 (- k + 1)" by simp
  from lo hi show ?thesis by (simp only: e)
qed

lemma binary_exponent_unique:
  assumes "power_int 2 e \<le> \<bar>y\<bar>" and "\<bar>y\<bar> < power_int 2 (e + 1)"
  shows "binary_exponent y = e"
proof -
  have "0 < power_int (2::real) e" by (rule zero_less_power_int) simp
  with assms(1) have "0 < \<bar>y\<bar>" by linarith
  then have "y \<noteq> 0" by simp
  from binary_exponent_bounds[OF this]
  have b: "power_int 2 (binary_exponent y) \<le> \<bar>y\<bar>" "\<bar>y\<bar> < power_int 2 (binary_exponent y + 1)"
    by simp_all
  have "power_int (2::real) e < power_int 2 (binary_exponent y + 1)" using assms(1) b(2) by linarith
  then have "\<not> binary_exponent y + 1 \<le> e"
    using power_int_increasing[of "binary_exponent y + 1" e "2::real"] by fastforce
  moreover have "power_int (2::real) (binary_exponent y) < power_int 2 (e + 1)"
    using assms(2) b(1) by linarith
  then have "\<not> e + 1 \<le> binary_exponent y"
    using power_int_increasing[of "e + 1" "binary_exponent y" "2::real"] by fastforce
  ultimately show ?thesis by simp
qed

lemma float64_nearest_0 [simp]: "float64_nearest 0 = 0"
  by (simp add: float64_nearest_def)

lemma float64_nearest_error:
  assumes "power_int 2 (- 1022) \<le> \<bar>y\<bar>"
  shows "\<bar>float64_nearest y - y\<bar> \<le> \<bar>y\<bar> / 2 ^ 53"
proof -
  have y: "y \<noteq> 0"
  proof
    assume "y = 0"
    with assms have "power_int (2::real) (- 1022) \<le> 0" by simp
    moreover have "0 < power_int (2::real) (- 1022)" by (rule zero_less_power_int) simp
    ultimately show False by linarith
  qed
  define e where "e = binary_exponent y"
  from binary_exponent_bounds[OF y]
  have b: "power_int 2 e \<le> \<bar>y\<bar>" "\<bar>y\<bar> < power_int 2 (e + 1)" by (simp_all add: e_def)
  have "power_int (2::real) (- 1022) < power_int 2 (e + 1)" using assms b(2) by linarith
  then have "\<not> e + 1 \<le> - 1022"
    using power_int_increasing[of "e + 1" "- 1022" "2::real"] by fastforce
  then have e: "max e (- 1022) = e" by simp
  define ulp :: real where "ulp = power_int 2 (e - 52)"
  have ulp: "0 < ulp" unfolding ulp_def by (rule zero_less_power_int) simp
  have r: "float64_nearest y = of_int (round_half_even (y / ulp)) * ulp"
    using y e by (simp add: float64_nearest_def Let_def e_def[symmetric] ulp_def)
  have "float64_nearest y - y = (of_int (round_half_even (y / ulp)) - y / ulp) * ulp"
    using ulp by (simp add: r left_diff_distrib)
  then have "\<bar>float64_nearest y - y\<bar> = \<bar>of_int (round_half_even (y / ulp)) - y / ulp\<bar> * ulp"
    using ulp by (simp add: abs_mult)
  also have "\<dots> \<le> 1 / 2 * ulp"
    using round_half_even_error[of "y / ulp"] ulp by (intro mult_right_mono) simp_all
  also have "1 / 2 * ulp = power_int 2 e / 2 ^ 53"
  proof -
    have "power_int (2::real) e = power_int 2 (e - 52) * power_int 2 52"
      using power_int_add[of "2::real" "e - 52" 52] by simp
    then show ?thesis by (simp add: ulp_def)
  qed
  also have "\<dots> \<le> \<bar>y\<bar> / 2 ^ 53" using b(1) by (simp add: divide_right_mono)
  finally show ?thesis .
qed

lemma float64_round_normal:
  assumes "power_int 2 (- 1022) \<le> \<bar>y\<bar>" and "\<bar>y\<bar> \<le> 2 ^ 1023"
  shows "float64_round y = Inr (float64_nearest y)"
proof -
  from float64_nearest_error[OF assms(1)]
  have "\<bar>float64_nearest y\<bar> \<le> \<bar>y\<bar> + \<bar>y\<bar> / 2 ^ 53" by linarith
  also have "\<dots> = \<bar>y\<bar> * (1 + 1 / 2 ^ 53)" by (simp add: algebra_simps)
  also have "\<dots> \<le> 2 ^ 1023 * (1 + 1 / 2 ^ 53)"
    using assms(2) by (intro mult_right_mono) simp_all
  also have "\<dots> < 2 ^ 1023 * (2::real)"
    by (intro mult_strict_left_mono) simp_all
  also have "\<dots> = 2 ^ 1024" by simp
  finally show ?thesis by (simp add: float64_round_def Let_def)
qed

lemma collect_map2:
  assumes "length u = length v"
    and "\<forall>i<length u. opr (u ! i) (v ! i) = Inr (g (u ! i) (v ! i))"
  shows "collect (map2 opr u v) = Inr (map2 g u v)"
  using assms
proof (induction u arbitrary: v)
  case Nil
  then show ?case by simp
next
  case (Cons a u)
  then obtain b w where v: "v = b # w" by (cases v) auto
  from Cons.prems(2) have h: "opr a b = Inr (g a b)" unfolding v by auto
  have "\<forall>i<length u. opr (u ! i) (w ! i) = Inr (g (u ! i) (w ! i))"
  proof (intro allI impI)
    fix i assume "i < length u"
    then show "opr (u ! i) (w ! i) = Inr (g (u ! i) (w ! i))"
      using Cons.prems(2)[unfolded v, rule_format, of "Suc i"] by simp
  qed
  with Cons.IH[of w] Cons.prems(1) v have "collect (map2 opr u w) = Inr (map2 g u w)" by simp
  with h show ?case by (simp add: v)
qed

lemma float64_round_0 [simp]: "float64_round 0 = Inr 0"
  by (simp add: float64_round_def)

lemma roundtrip_entry:
  assumes "b \<noteq> 0"
    and "a = 0 \<or> (power_int 2 (- 1021) \<le> \<bar>a\<bar> \<and> \<bar>a\<bar> \<le> 2 ^ 1022 \<and>
                   power_int 2 (- 1022) \<le> \<bar>a / b\<bar> \<and> \<bar>a / b\<bar> \<le> 2 ^ 1023)"
  shows "float64_divide a b = Inr (float64_nearest (a / b))"
    and "float64_multiply (float64_nearest (a / b)) b =
           Inr (float64_nearest (float64_nearest (a / b) * b))"
    and "\<bar>float64_nearest (float64_nearest (a / b) * b) - a\<bar> \<le> (1 / 2 ^ 52 + 1 / 2 ^ 106) * \<bar>a\<bar>"
proof -
  define q where "q = float64_nearest (a / b)"
  define t where "t = q * b"
  define u :: real where "u = 1 / 2 ^ 53"
  have u: "0 < u" "u \<le> 1 / 2" "1 / 2 ^ 52 + 1 / 2 ^ 106 = 2 * u + u * u"
    by (simp_all add: u_def)
  have goal: "float64_divide a b = Inr q \<and> float64_multiply q b = Inr (float64_nearest t) \<and>
      \<bar>float64_nearest t - a\<bar> \<le> (2 * u + u * u) * \<bar>a\<bar>"
  proof (cases "a = 0")
    case True
    then show ?thesis
      using assms(1) by (simp add: q_def t_def float64_divide_def float64_multiply_def)
  next
    case False
    with assms(2) have r: "power_int 2 (- 1021) \<le> \<bar>a\<bar>" "\<bar>a\<bar> \<le> 2 ^ 1022"
      "power_int 2 (- 1022) \<le> \<bar>a / b\<bar>" "\<bar>a / b\<bar> \<le> 2 ^ 1023"
      by simp_all
    have d: "float64_divide a b = Inr q"
      using assms(1) float64_round_normal[OF r(3,4)] by (simp add: float64_divide_def q_def)
    have "\<bar>q - a / b\<bar> \<le> u * \<bar>a / b\<bar>"
      using float64_nearest_error[OF r(3)] by (simp add: q_def u_def)
    then have "\<bar>q - a / b\<bar> * \<bar>b\<bar> \<le> u * \<bar>a / b\<bar> * \<bar>b\<bar>"
      by (intro mult_right_mono) simp_all
    moreover have "\<bar>q - a / b\<bar> * \<bar>b\<bar> = \<bar>t - a\<bar>"
      using assms(1) by (simp add: t_def abs_mult[symmetric] left_diff_distrib)
    moreover have "u * \<bar>a / b\<bar> * \<bar>b\<bar> = u * \<bar>a\<bar>"
      using assms(1) by (simp add: abs_divide)
    ultimately have ta: "\<bar>t - a\<bar> \<le> u * \<bar>a\<bar>" by simp
    have "u * \<bar>a\<bar> \<le> 1 / 2 * \<bar>a\<bar>" using u(2) by (intro mult_right_mono) simp_all
    then have ua: "u * \<bar>a\<bar> \<le> \<bar>a\<bar> / 2" by simp
    have "\<bar>a\<bar> / 2 \<le> \<bar>t\<bar>" using ta ua by linarith
    moreover have "power_int (2::real) (- 1022) = power_int 2 (- 1021) / 2"
      using power_int_add[of "2::real" "- 1022" 1] by simp
    ultimately have lo: "power_int 2 (- 1022) \<le> \<bar>t\<bar>" using r(1) by linarith
    have "\<bar>t\<bar> \<le> \<bar>a\<bar> + \<bar>a\<bar> / 2" using ta ua by linarith
    also have "\<dots> \<le> 2 * \<bar>a\<bar>" by simp
    also have "\<dots> \<le> 2 * 2 ^ 1022" using r(2) by simp
    also have "\<dots> = (2::real) ^ 1023" by simp
    finally have hi: "\<bar>t\<bar> \<le> 2 ^ 1023" .
    have m: "float64_multiply q b = Inr (float64_nearest t)"
      using float64_round_normal[OF lo hi] by (simp add: float64_multiply_def t_def)
    have "\<bar>float64_nearest t - t\<bar> \<le> u * \<bar>t\<bar>"
      using float64_nearest_error[OF lo] by (simp add: u_def)
    also have "\<dots> \<le> u * (\<bar>a\<bar> + u * \<bar>a\<bar>)"
      using ta u(1) by (intro mult_left_mono) linarith+
    finally have "\<bar>float64_nearest t - t\<bar> \<le> u * \<bar>a\<bar> + u * u * \<bar>a\<bar>"
      by (simp add: algebra_simps)
    with ta have "\<bar>float64_nearest t - a\<bar> \<le> (2 * u + u * u) * \<bar>a\<bar>"
      by (simp add: algebra_simps)
    with d m show ?thesis by simp
  qed
  from goal show "float64_divide a b = Inr (float64_nearest (a / b))"
    by (simp add: q_def)
  from goal show "float64_multiply (float64_nearest (a / b)) b =
           Inr (float64_nearest (float64_nearest (a / b) * b))"
    by (simp add: q_def t_def)
  from goal show "\<bar>float64_nearest (float64_nearest (a / b) * b) - a\<bar>
      \<le> (1 / 2 ^ 52 + 1 / 2 ^ 106) * \<bar>a\<bar>"
    unfolding u(3) by (simp add: q_def t_def)
qed

lemma converge_run:
  assumes "converge step meas gt dft dxt mi st 0 = Inr (a, b, flag, iter')"
  shows "\<exists>k. iter' = int k + 1 \<and> steps_from step 0 st k = Inr a \<and>
             steps_from step 0 st (Suc k) = Inr b \<and>
             exit_flag_priority (int k + 1) mi (meas a b) gt dxt dft flag \<and>
             (\<forall>j<k. flag_at step meas gt dft dxt mi 0 st j = None)"
proof -
  from converge_sound[OF assms] obtain k where k:
    "iter' = 0 + int k + 1" "steps_from step 0 st k = Inr a" "step (0 + int k) a = Inr b"
    "pass_flag meas gt dft dxt mi iter' a b = Some flag"
    "\<forall>j<k. flag_at step meas gt dft dxt mi 0 st j = None"
    by blast
  have "steps_from step 0 st (Suc k) = Inr b"
    using k(2,3) by (simp add: steps_from_Suc del: steps_from.simps)
  with k show ?thesis by (auto simp: pass_flag_priority)
qed

lemma converge_budget:
  assumes "steps_from step 0 st (Suc k) = Inr b"
    and "\<forall>j<k. flag_at step meas gt dft dxt mi 0 st j = None"
    and "mi \<le> int k + 1"
  shows "\<exists>a. steps_from step 0 st k = Inr a \<and>
             converge step meas gt dft dxt mi st 0 = Inr (a, b, 0, int k + 1)"
proof -
  from assms(1) obtain a where a: "steps_from step 0 st k = Inr a"
    and b: "step (0 + int k) a = Inr b"
    by (auto simp: steps_from_Suc simp del: steps_from.simps split: sum.splits)
  have "pass_flag meas gt dft dxt mi (0 + int k + 1) a b = Some 0"
    using assms(3) by (simp add: pass_flag_def check_convergence_def split: prod.splits)
  from converge_complete[OF a b assms(2) this] a show ?thesis by simp
qed

lemma steps_from_invariant:
  assumes "\<And>i s s'. I s \<Longrightarrow> step i s = Inr s' \<Longrightarrow> I s'"
    and "I st" and "steps_from step iter st k = Inr a"
  shows "I a"
  using assms(2,3)
proof (induction k arbitrary: iter st)
  case 0
  then show ?case by simp
next
  case (Suc k)
  from Suc.prems(2) obtain st' where st': "step iter st = Inr st'"
    and rest: "steps_from step (iter + 1) st' k = Inr a"
    by (auto split: sum.splits)
  from assms(1)[OF Suc.prems(1) st'] have "I st'" .
  then show ?case using rest by (rule Suc.IH)
qed

lemma steps_from_prefix:
  "steps_from step iter st (Suc k) = Inr b \<Longrightarrow> \<exists>a. steps_from step iter st k = Inr a"
  by (auto simp: steps_from_Suc simp del: steps_from.simps split: sum.splits)

lemma steps_from_descent:
  assumes step: "\<And>i s s'. I s \<Longrightarrow> step i s = Inr s' \<Longrightarrow> I s' \<and> val s' \<le> (val s :: real)"
    and "I st" and "steps_from step iter st j = Inr a" and "steps_from step iter st k = Inr b"
    and "j \<le> k"
  shows "val b \<le> val a"
  using assms(4,5)
proof (induction k arbitrary: b)
  case 0
  with assms(3) show ?case by simp
next
  case (Suc k)
  show ?case
  proof (cases "j = Suc k")
    case True
    with Suc.prems assms(3) show ?thesis by simp
  next
    case False
    with Suc.prems have jk: "j \<le> k" by simp
    from Suc.prems(1) obtain c where c: "steps_from step iter st k = Inr c"
      and cb: "step (iter + int k) c = Inr b"
      by (auto simp: steps_from_Suc simp del: steps_from.simps split: sum.splits)
    have "I c" using steps_from_invariant[of I step st iter k c] step assms(2) c by blast
    with step cb have "val b \<le> val c" by blast
    moreover have "val c \<le> val a" using Suc.IH[OF c jk] .
    ultimately show ?thesis by simp
  qed
qed

section \<open>Shapes and descent\<close>

lemma length_vec_ops [simp]:
  "length (vadd u v) = min (length u) (length v)"
  "length (vsub u v) = min (length u) (length v)"
  "length (smul a v) = length v"
  "length (vneg v) = length v"
  by (simp_all add: vadd_def vsub_def smul_def vneg_def)

lemma vdiv_length: "vdiv v d = Inr w \<Longrightarrow> length w = length v"
  by (auto simp: vdiv_def split: if_splits)

lemma vadd_smul_zero: "length x \<le> length s \<Longrightarrow> vadd x (smul 0 s) = x"
  unfolding vadd_def smul_def by (rule nth_equalityI) simp_all

lemma line_search_descent:
  assumes "no_worse_than_zero_step fminbound" and "length x \<le> length s"
  shows "f (vadd x (smul (fminbound (\<lambda>alpha. f (vadd x (smul alpha s))) 0 1) s)) \<le> f x"
proof -
  let ?func = "\<lambda>alpha. f (vadd x (smul alpha s))"
  have "?func (fminbound ?func 0 1) \<le> ?func 0"
    using assms(1)[unfolded no_worse_than_zero_step_def, rule_format, of ?func] .
  then show ?thesis using assms(2) by (simp add: vadd_smul_zero)
qed

lemma sd_step_descent:
  assumes "no_worse_than_zero_step fm" and "keeps_dimension df"
    and "sd_step fm f df x = Inr x_new"
  shows "f x_new \<le> f x \<and> length x_new = length x"
proof -
  from assms(3) obtain s where s: "vdiv (vneg (df f x)) (linalg_norm (vneg (df f x))) = Inr s"
    and x_new: "x_new = vadd x (smul (fm (\<lambda>alpha. f (vadd x (smul alpha s))) 0 1) s)"
    by (auto simp: sd_step_def Let_def split: sum.splits)
  have "length s = length x"
    using vdiv_length[OF s] assms(2) by (simp add: keeps_dimension_def)
  then show ?thesis using line_search_descent[OF assms(1), of x s f] x_new by simp
qed

lemma cg_init_descent:
  assumes "no_worse_than_zero_step fm" and "keeps_dimension df"
    and "cg_init fm f df x = Inr (x0, x_new, s)"
  shows "x0 = x \<and> f x_new \<le> f x \<and> length s = length x_new \<and> length x_new = length x"
proof -
  from assms(3) have s: "vdiv (vneg (df f x)) (linalg_norm (vneg (df f x))) = Inr s"
    and x_new: "x_new = vadd x (smul (fm (\<lambda>alpha. f (vadd x (smul alpha s))) 0 1) s)"
    and x0: "x0 = x"
    by (auto simp: cg_init_def Let_def split: sum.splits)
  have "length s = length x"
    using vdiv_length[OF s] assms(2) by (simp add: keeps_dimension_def)
  then show ?thesis using line_search_descent[OF assms(1), of x s f] x_new x0 by simp
qed

lemma cg_step_parts:
  assumes "cg_step fm f df iter (x, x_new, s) = Inr (x', x_new', s')"
  shows "\<exists>d. cg_direction f df x x_new s iter = Inr d \<and> vdiv d (linalg_norm d) = Inr s' \<and>
             x' = x_new \<and>
             x_new' = vadd x_new (smul (fm (\<lambda>alpha. f (vadd x_new (smul alpha s'))) 0 1) s')"
  using assms by (auto simp: cg_step_def Let_def split: sum.splits)

lemma cg_step_descent:
  assumes "no_worse_than_zero_step fm" and "keeps_dimension df"
    and "length s = length x_new"
    and "cg_step fm f df iter (x, x_new, s) = Inr (x', x_new', s')"
  shows "length s' = length x_new' \<and> f x_new' \<le> f x_new \<and> length x_new' = length x_new"
proof -
  from cg_step_parts[OF assms(4)] obtain d where
    d: "cg_direction f df x x_new s iter = Inr d" and s': "vdiv d (linalg_norm d) = Inr s'"
    and x_new': "x_new' = vadd x_new (smul (fm (\<lambda>alpha. f (vadd x_new (smul alpha s'))) 0 1) s')"
    by blast
  have "length d = length x_new"
    using d assms(2,3) by (auto simp: cg_direction_def keeps_dimension_def split: if_splits)
  then have "length s' = length x_new" using vdiv_length[OF s'] by simp
  then show ?thesis using line_search_descent[OF assms(1), of x_new s' f] x_new' by simp
qed

lemma is_square_eye: "is_square n (eye n)"
  by (simp add: is_square_def eye_def list_all_iff)

lemma is_square_matrix_of: "is_square n (matrix_of n F)"
  by (simp add: is_square_def matrix_of_def list_all_iff)

lemma is_square_mat_add: "is_square n A \<Longrightarrow> is_square n B \<Longrightarrow> is_square n (mat_add A B)"
  by (auto simp: is_square_def mat_add_def list_all_length)

lemma keeps_square_BFGS: "keeps_square BFGS_update"
  unfolding keeps_square_def
proof (intro allI impI)
  fix n B delta_x delta_g M
  assume a: "is_square n B \<and> length delta_x = n \<and> length delta_g = n \<and>
             BFGS_update B delta_x delta_g = Inr M"
  then have "inner delta_x delta_g \<noteq> 0"
    by (auto simp: BFGS_update_def dot_inner split: if_splits)
  with a BFGS_update_increment[of n B delta_x delta_g] show "is_square n M"
    by (auto simp: is_square_matrix_of)
qed

lemma keeps_square_DFP: "keeps_square DFP_update"
  unfolding keeps_square_def
proof (intro allI impI)
  fix n B delta_x delta_g M
  assume a: "is_square n B \<and> length delta_x = n \<and> length delta_g = n \<and>
             DFP_update B delta_x delta_g = Inr M"
  then have "inner delta_x delta_g \<noteq> 0" "quad_form delta_g B delta_g \<noteq> 0"
    by (auto simp: DFP_update_def dot_inner quad_form_dot split: if_splits)
  with a DFP_update_increment[of n B delta_x delta_g] show "is_square n M"
    by (auto simp: is_square_matrix_of)
qed

lemma qn_step_descent:
  assumes "no_worse_than_zero_step fm" and "keeps_dimension df" and "keeps_square upd"
    and "qn_shape st" and "qn_step fm f df upd st = Inr st'"
  shows "qn_shape st' \<and> f (snd st') \<le> f (snd st) \<and> length (snd st') = length (snd st)"
proof -
  obtain B0 x where st: "st = (B0, x)" by (cases st)
  from assms(5) st obtain B where B0: "B0 = Inr B"
    by (auto simp: qn_step_def split: sum.splits)
  let ?s0 = "mat_vec (mat_neg B) (df f x)"
  from assms(5) st B0 obtain s where s: "vdiv ?s0 (linalg_norm ?s0) = Inr s"
    by (auto simp: qn_step_def Let_def split: sum.splits)
  define x_new where "x_new = vadd x (smul (fm (\<lambda>alpha. f (vadd x (smul alpha s))) 0 1) s)"
  have st': "st' = (map_sum id (mat_add B)
        (upd B (vsub x_new x) (vsub (df f x_new) (df f x))), x_new)"
    using assms(5) st B0 s by (simp add: qn_step_def Let_def x_new_def)
  have sq: "is_square (length x) B" using assms(4) st B0 by (simp add: qn_shape_def)
  then have "length ?s0 = length x" by (simp add: mat_vec_def mat_neg_def is_square_def)
  then have ls: "length s = length x" using vdiv_length[OF s] by simp
  then have lx: "length x_new = length x" by (simp add: x_new_def)
  have desc: "f x_new \<le> f x"
    using line_search_descent[OF assms(1), of x s f] ls by (simp add: x_new_def)
  have "qn_shape st'"
  proof (cases "upd B (vsub x_new x) (vsub (df f x_new) (df f x))")
    case (Inl e)
    then show ?thesis by (simp add: st' qn_shape_def)
  next
    case (Inr M)
    have "is_square (length x) M"
      using assms(3) sq Inr lx assms(2)
      unfolding keeps_square_def keeps_dimension_def
      by (metis length_vec_ops(2) min.idem)
    then show ?thesis using Inr sq lx by (simp add: st' qn_shape_def is_square_mat_add)
  qed
  with desc lx show ?thesis by (simp add: st st')
qed

section \<open>Passes of the augmented Lagrangian loop\<close>

lemma clip_fold:
  "k \<le> length m \<Longrightarrow>
   fold (\<lambda>i mu_new. if mu_new ! i < 0 then mu_new[i := 0] else mu_new) [0..<k] m =
     map (max 0) (take k m) @ drop k (m :: real list)"
proof (induction k)
  case 0
  then show ?case by simp
next
  case (Suc k)
  then have k: "k < length m" by simp
  then have d: "drop k m = m ! k # drop (Suc k) m" by (simp add: Cons_nth_drop_Suc)
  have t: "take (Suc k) m = take k m @ [m ! k]" using k by (simp add: take_Suc_conv_app_nth)
  from Suc k show ?case
    by (simp add: d t nth_append list_update_append max_def)
qed

lemma clip_negative:
  "fold (\<lambda>i mu_new. if mu_new ! i < 0 then mu_new[i := 0] else mu_new) [0..<length m] m =
     map (max 0) (m :: real list)"
  using clip_fold[of "length m" m] by simp

lemma quasi_newton_terse:
  "quasi_newton fm f x df gt dft dxt mi False upd = Inr out \<Longrightarrow> snd out = None"
  by (cases "qn_loop fm f df gt dft dxt mi upd (Inr (eye (length x))) x 0")
     (auto simp: quasi_newton_def Let_def return_output_def split: prod.splits)

lemma al_step_parts:
  assumes "al_step fm f con df rho dft dxt (x, mu0, lambda_0) = Inr (x_new, mu_new, lambda_new)"
  shows "quasi_newton fm (\<lambda>x. calc_augmented_lagrangian f con x lambda_0 mu0 rho) x df
           dft dxt (1 / 10 ^ 5) 100 False BFGS_update = Inr (x_new, None)
       \<and> mu_new = map (max 0) (vadd mu0 (smul rho (fst (con x_new))))
       \<and> lambda_new = vadd lambda_0 (smul rho (snd (con x_new)))"
proof -
  let ?qn = "quasi_newton fm (\<lambda>x. calc_augmented_lagrangian f con x lambda_0 mu0 rho) x df
           dft dxt (1 / 10 ^ 5) 100 False BFGS_update"
  from assms obtain out where out: "?qn = Inr out"
    by (cases ?qn) (simp_all add: al_step_def)
  from quasi_newton_terse[OF out] have o: "out = (fst out, None)" by (cases out) simp
  from assms out have "x_new = fst out"
    "mu_new = map (max 0) (vadd mu0 (smul rho (fst (con (fst out)))))"
    "lambda_new = vadd lambda_0 (smul rho (snd (con (fst out))))"
    by (auto simp: al_step_def Let_def split_beta clip_negative)
  with out o show ?thesis by simp
qed

lemma al_step_error:
  "quasi_newton fm (\<lambda>x. calc_augmented_lagrangian f con x lambda_0 mu0 rho) x df
           dft dxt (1 / 10 ^ 5) 100 False BFGS_update = Inl e \<Longrightarrow>
   al_step fm f con df rho dft dxt (x, mu0, lambda_0) = Inl e"
  by (simp add: al_step_def)

lemma al_iterate_0:
  "al_iterate fm f con df rho dft dxt x0 0 =
     Inr (x0, replicate (length (fst (con x0))) 0, replicate (length (snd (con x0))) 0)"
  by (simp add: al_iterate_def al_init_def Let_def split_beta)

lemma al_iterate_Suc:
  "al_iterate fm f con df rho dft dxt x0 (Suc k) =
     (case al_iterate fm f con df rho dft dxt x0 k of
        Inl e \<Rightarrow> Inl e
      | Inr st \<Rightarrow> al_step fm f con df rho dft dxt st)"
  by (simp add: al_iterate_def steps_from_Suc del: steps_from.simps)

lemma al_iterate_mu_nonneg:
  "al_iterate fm f con df rho dft dxt x0 k = Inr (x, mu, lambda) \<Longrightarrow> list_all (\<lambda>m. 0 \<le> m) mu"
proof (induction k arbitrary: x mu lambda)
  case 0
  then show ?case by (auto simp: al_iterate_0 list_all_iff)
next
  case (Suc k)
  from Suc.prems obtain st where st: "al_iterate fm f con df rho dft dxt x0 k = Inr st"
    and step: "al_step fm f con df rho dft dxt st = Inr (x, mu, lambda)"
    by (auto simp: al_iterate_Suc split: sum.splits)
  obtain a b c where "st = (a, b, c)" by (cases st)
  with al_step_parts[of fm f con df rho dft dxt a b c x mu lambda] step
  show ?case by (simp add: list_all_iff)
qed

lemma map_max_vadd_smul:
  "map (max 0) (vadd mu (smul rho g)) = map2 (\<lambda>m g. max 0 (m + rho * g)) mu g"
  unfolding vadd_def smul_def
proof (induction mu arbitrary: g)
  case Nil
  then show ?case by simp
next
  case (Cons m mu)
  then show ?case by (cases g) simp_all
qed

lemma vadd_smul_map2:
  "vadd lam (smul rho h) = map2 (\<lambda>l h. l + rho * h) lam h"
  unfolding vadd_def smul_def
proof (induction lam arbitrary: h)
  case Nil
  then show ?case by simp
next
  case (Cons l lam)
  then show ?case by (cases h) simp_all
qed

section \<open>What a solver call returns\<close>

lemma return_output_simps [simp]:
  "return_output f True (x_new, flag, iter) = (x_new, Some (f x_new, flag, iter))"
  "return_output f False (x_new, flag, iter) = (x_new, None)"
  by (simp_all add: return_output_def)

lemma sd_result:
  assumes "steepest_descent fm f x df gt dft dxt mi full_output = Inr out"
  shows "\<exists>k x_prev x_new flag.
           out = return_output f full_output (x_new, flag, int k + 1) \<and>
           sd_iterate fm f df x k = Inr x_prev \<and>
           sd_iterate fm f df x (Suc k) = Inr x_new \<and>
           exit_flag_priority (int k + 1) mi (measures f df x_prev x_new) gt dxt dft flag \<and>
           (\<forall>j<k. sd_pass_flag fm f df gt dft dxt mi x j = None)"
proof -
  from assms obtain a b flag iter' where
    c: "converge (\<lambda>iter. sd_step fm f df) (measures f df) gt dft dxt mi x 0 = Inr (a, b, flag, iter')"
    and out: "out = return_output f full_output (drop_sd (a, b, flag, iter'))"
    by (cases "converge (\<lambda>iter. sd_step fm f df) (measures f df) gt dft dxt mi x 0")
       (auto simp: steepest_descent_def sd_loop_converge)
  from converge_run[OF c] obtain k where k: "iter' = int k + 1"
    "steps_from (\<lambda>iter. sd_step fm f df) 0 x k = Inr a"
    "steps_from (\<lambda>iter. sd_step fm f df) 0 x (Suc k) = Inr b"
    "exit_flag_priority (int k + 1) mi (measures f df a b) gt dxt dft flag"
    "\<forall>j<k. flag_at (\<lambda>iter. sd_step fm f df) (measures f df) gt dft dxt mi 0 x j = None"
    by blast
  have "out = return_output f full_output (b, flag, int k + 1) \<and>
        sd_iterate fm f df x k = Inr a \<and>
        sd_iterate fm f df x (Suc k) = Inr b \<and>
        exit_flag_priority (int k + 1) mi (measures f df a b) gt dxt dft flag \<and>
        (\<forall>j<k. sd_pass_flag fm f df gt dft dxt mi x j = None)"
    using out k
    by (simp add: sd_iterate_def sd_pass_flag_def drop_sd_def del: steps_from.simps)
  then show ?thesis by blast
qed

lemma sd_budget:
  assumes "sd_iterate fm f df x (Suc k) = Inr x_new"
    and "\<forall>j<k. sd_pass_flag fm f df gt dft dxt mi x j = None"
    and "mi \<le> int k + 1"
  shows "steepest_descent fm f x df gt dft dxt mi full_output =
           Inr (return_output f full_output (x_new, 0, int k + 1))"
proof -
  from converge_budget[OF assms(1)[unfolded sd_iterate_def] assms(2)[unfolded sd_pass_flag_def] assms(3)]
  obtain a where "converge (\<lambda>iter. sd_step fm f df) (measures f df) gt dft dxt mi x 0 =
      Inr (a, x_new, 0, int k + 1)"
    by blast
  then show ?thesis by (simp add: steepest_descent_def sd_loop_converge drop_sd_def)
qed

lemma sd_best:
  assumes "no_worse_than_zero_step fm" and "keeps_dimension df"
    and "sd_iterate fm f df x j = Inr y" and "sd_iterate fm f df x k = Inr z" and "j \<le> k"
  shows "f z \<le> f y"
proof -
  have step: "\<And>i s s'. length s = length x \<Longrightarrow> sd_step fm f df s = Inr s' \<Longrightarrow>
      length s' = length x \<and> f s' \<le> f s"
    using sd_step_descent[OF assms(1,2)] by simp
  from steps_from_descent[where I = "\<lambda>s. length s = length x" and val = f, OF step refl
      assms(3)[unfolded sd_iterate_def] assms(4)[unfolded sd_iterate_def] assms(5)]
  show ?thesis .
qed

lemma cg_result:
  assumes "conjugate_gradient fm f x df gt dft dxt mi full_output = Inr out"
  shows "\<exists>k st x_prev x_new s flag.
           out = return_output f full_output (x_new, flag, int k + 1) \<and>
           cg_iterate fm f df x k = Inr st \<and>
           cg_iterate fm f df x (Suc k) = Inr (x_prev, x_new, s) \<and>
           exit_flag_priority (int k + 1) mi (measures f df x_prev x_new) gt dxt dft flag \<and>
           (\<forall>j<k. cg_pass_flag fm f df gt dft dxt mi x j = None)"
proof -
  from assms obtain st0 where st0: "cg_init fm f df x = Inr st0"
    by (cases "cg_init fm f df x") (auto simp: conjugate_gradient_def)
  obtain x0 x1 s0 where st0': "st0 = (x0, x1, s0)" by (cases st0)
  from assms st0 st0' obtain a b flag iter' where
    c: "converge (cg_step fm f df) (cg_meas f df) gt dft dxt mi st0 0 = Inr (a, b, flag, iter')"
    and out: "out = return_output f full_output (drop_cg (a, b, flag, iter'))"
    by (cases "converge (cg_step fm f df) (cg_meas f df) gt dft dxt mi st0 0")
       (auto simp: conjugate_gradient_def cg_loop_converge)
  obtain x_prev x_new s where b: "b = (x_prev, x_new, s)" by (cases b)
  from converge_run[OF c] obtain k where k: "iter' = int k + 1"
    "steps_from (cg_step fm f df) 0 st0 k = Inr a"
    "steps_from (cg_step fm f df) 0 st0 (Suc k) = Inr b"
    "exit_flag_priority (int k + 1) mi (cg_meas f df a b) gt dxt dft flag"
    "\<forall>j<k. flag_at (cg_step fm f df) (cg_meas f df) gt dft dxt mi 0 st0 j = None"
    by blast
  have "out = return_output f full_output (x_new, flag, int k + 1) \<and>
        cg_iterate fm f df x k = Inr a \<and>
        cg_iterate fm f df x (Suc k) = Inr (x_prev, x_new, s) \<and>
        exit_flag_priority (int k + 1) mi (measures f df x_prev x_new) gt dxt dft flag \<and>
        (\<forall>j<k. cg_pass_flag fm f df gt dft dxt mi x j = None)"
    using out st0 b k
    by (simp add: cg_iterate_def cg_pass_flag_def drop_cg_def cg_meas_def del: steps_from.simps)
  then show ?thesis by blast
qed

lemma cg_budget:
  assumes "cg_iterate fm f df x (Suc k) = Inr (x_prev, x_new, s)"
    and "\<forall>j<k. cg_pass_flag fm f df gt dft dxt mi x j = None"
    and "mi \<le> int k + 1"
  shows "conjugate_gradient fm f x df gt dft dxt mi full_output =
           Inr (return_output f full_output (x_new, 0, int k + 1))"
proof -
  from assms(1) obtain st0 where st0: "cg_init fm f df x = Inr st0"
    and it: "steps_from (cg_step fm f df) 0 st0 (Suc k) = Inr (x_prev, x_new, s)"
    by (cases "cg_init fm f df x") (auto simp: cg_iterate_def)
  obtain x0 x1 s0 where st0': "st0 = (x0, x1, s0)" by (cases st0)
  from assms(2) st0 have fl:
    "\<forall>j<k. flag_at (cg_step fm f df) (cg_meas f df) gt dft dxt mi 0 st0 j = None"
    by (simp add: cg_pass_flag_def)
  from converge_budget[OF it fl assms(3)]
  obtain a where "converge (cg_step fm f df) (cg_meas f df) gt dft dxt mi st0 0 =
      Inr (a, (x_prev, x_new, s), 0, int k + 1)"
    by blast
  then show ?thesis using st0 st0'
    by (simp add: conjugate_gradient_def cg_loop_converge drop_cg_def)
qed

lemma cg_best:
  assumes "no_worse_than_zero_step fm" and "keeps_dimension df"
    and "cg_iterate fm f df x j = Inr (a, y, s)" and "cg_iterate fm f df x k = Inr (b, z, t)"
    and "j \<le> k"
  shows "f z \<le> f y \<and> f y \<le> f x"
proof -
  from assms(3) obtain st0 where st0: "cg_init fm f df x = Inr st0"
    and j: "steps_from (cg_step fm f df) 0 st0 j = Inr (a, y, s)"
    by (cases "cg_init fm f df x") (auto simp: cg_iterate_def)
  from assms(4) st0 have k: "steps_from (cg_step fm f df) 0 st0 k = Inr (b, z, t)"
    by (simp add: cg_iterate_def)
  obtain x0 x1 s0 where st0': "st0 = (x0, x1, s0)" by (cases st0)
  from cg_init_descent[OF assms(1,2) st0[unfolded st0']]
  have init: "f x1 \<le> f x" "cg_shape st0" by (simp_all add: st0' cg_shape_def)
  have step: "\<And>i s s'. cg_shape s \<Longrightarrow> cg_step fm f df i s = Inr s' \<Longrightarrow>
      cg_shape s' \<and> f (fst (snd s')) \<le> f (fst (snd s))"
  proof -
    fix i s s' assume "cg_shape s" "cg_step fm f df i s = Inr s'"
    then show "cg_shape s' \<and> f (fst (snd s')) \<le> f (fst (snd s))"
      using cg_step_descent[OF assms(1,2), of "snd (snd s)" "fst (snd s)" f i "fst s"
          "fst s'" "fst (snd s')" "snd (snd s')"]
      by (cases s; cases s') (simp add: cg_shape_def)
  qed
  have "steps_from (cg_step fm f df) 0 st0 0 = Inr st0" by simp
  from steps_from_descent[where I = cg_shape and val = "\<lambda>st. f (fst (snd st))", OF step init(2) this j]
  have "f y \<le> f x1" by (simp add: st0')
  moreover from steps_from_descent[where I = cg_shape and val = "\<lambda>st. f (fst (snd st))",
      OF step init(2) j k assms(5)]
  have "f z \<le> f y" by simp
  ultimately show ?thesis using init(1) by simp
qed

lemma qn_result:
  assumes "quasi_newton fm f x df gt dft dxt mi full_output upd = Inr out"
  shows "\<exists>k B_prev x_prev B x_new flag.
           out = return_output f full_output (x_new, flag, int k + 1) \<and>
           qn_iterate fm f df upd x k = Inr (B_prev, x_prev) \<and>
           qn_iterate fm f df upd x (Suc k) = Inr (B, x_new) \<and>
           exit_flag_priority (int k + 1) mi (measures f df x_prev x_new) gt dxt dft flag \<and>
           (\<forall>j<k. qn_pass_flag fm f df gt dft dxt mi upd x j = None)"
proof -
  let ?st0 = "(Inr (eye (length x)) :: error + matrix, x)"
  from assms obtain a b flag iter' where
    c: "converge (\<lambda>iter. qn_step fm f df upd) (qn_meas f df) gt dft dxt mi ?st0 0 =
          Inr (a, b, flag, iter')"
    and out: "out = return_output f full_output (drop_qn (a, b, flag, iter'))"
    by (cases "converge (\<lambda>iter. qn_step fm f df upd) (qn_meas f df) gt dft dxt mi ?st0 0")
       (auto simp: quasi_newton_def qn_loop_converge)
  obtain B_prev x_prev where a: "a = (B_prev, x_prev)" by (cases a)
  obtain B x_new where b: "b = (B, x_new)" by (cases b)
  from converge_run[OF c] obtain k where k: "iter' = int k + 1"
    "steps_from (\<lambda>iter. qn_step fm f df upd) 0 ?st0 k = Inr a"
    "steps_from (\<lambda>iter. qn_step fm f df upd) 0 ?st0 (Suc k) = Inr b"
    "exit_flag_priority (int k + 1) mi (qn_meas f df a b) gt dxt dft flag"
    "\<forall>j<k. flag_at (\<lambda>iter. qn_step fm f df upd) (qn_meas f df) gt dft dxt mi 0 ?st0 j = None"
    by blast
  have "out = return_output f full_output (x_new, flag, int k + 1) \<and>
        qn_iterate fm f df upd x k = Inr (B_prev, x_prev) \<and>
        qn_iterate fm f df upd x (Suc k) = Inr (B, x_new) \<and>
        exit_flag_priority (int k + 1) mi (measures f df x_prev x_new) gt dxt dft flag \<and>
        (\<forall>j<k. qn_pass_flag fm f df gt dft dxt mi upd x j = None)"
    using out a b k
    by (simp add: qn_iterate_def qn_pass_flag_def drop_qn_def qn_meas_def del: steps_from.simps)
  then show ?thesis by blast
qed

lemma qn_budget:
  assumes "qn_iterate fm f df upd x (Suc k) = Inr (B, x_new)"
    and "\<forall>j<k. qn_pass_flag fm f df gt dft dxt mi upd x j = None"
    and "mi \<le> int k + 1"
  shows "quasi_newton fm f x df gt dft dxt mi full_output upd =
           Inr (return_output f full_output (x_new, 0, int k + 1))"
proof -
  from converge_budget[OF assms(1)[unfolded qn_iterate_def] assms(2)[unfolded qn_pass_flag_def] assms(3)]
  obtain a where "converge (\<lambda>iter. qn_step fm f df upd) (qn_meas f df) gt dft dxt mi
      (Inr (eye (length x)), x) 0 = Inr (a, (B, x_new), 0, int k + 1)"
    by blast
  then show ?thesis by (simp add: quasi_newton_def qn_loop_converge drop_qn_def)
qed

lemma qn_best:
  assumes "no_worse_than_zero_step fm" and "keeps_dimension df" and "keeps_square upd"
    and "qn_iterate fm f df upd x j = Inr (A, y)" and "qn_iterate fm f df upd x k = Inr (B, z)"
    and "j \<le> k"
  shows "f z \<le> f y"
proof -
  have step: "\<And>i s s'. qn_shape s \<Longrightarrow> qn_step fm f df upd s = Inr s' \<Longrightarrow>
      qn_shape s' \<and> f (snd s') \<le> f (snd s)"
    using qn_step_descent[OF assms(1,2,3)] by blast
  have init: "qn_shape (Inr (eye (length x)), x)" by (simp add: qn_shape_def is_square_eye)
  from steps_from_descent[where I = qn_shape and val = "\<lambda>st. f (snd st)", OF step init
      assms(4)[unfolded qn_iterate_def] assms(5)[unfolded qn_iterate_def] assms(6)]
  show ?thesis by simp
qed

lemma al_result:
  assumes "augmented_lagrangian fm f con x df rho gt dft dxt mi full_output = Inr out"
  shows "\<exists>k x_prev mu_prev lambda_prev x_new mu_new lambda_new flag.
           out = return_output f full_output (x_new, flag, int k + 1) \<and>
           al_iterate fm f con df rho dft dxt x k = Inr (x_prev, mu_prev, lambda_prev) \<and>
           al_iterate fm f con df rho dft dxt x (Suc k) = Inr (x_new, mu_new, lambda_new) \<and>
           exit_flag_priority (int k + 1) mi (measures f df x_prev x_new) gt dxt dft flag \<and>
           (\<forall>j<k. al_pass_flag fm f con df rho gt dft dxt mi x j = None)"
proof -
  obtain x0 mu0 lambda_0 where st0: "al_init con x = (x0, mu0, lambda_0)" by (cases "al_init con x")
  from assms st0 obtain a b flag iter' where
    c: "converge (\<lambda>iter. al_step fm f con df rho dft dxt) (al_meas f df) gt dft dxt mi
          (al_init con x) 0 = Inr (a, b, flag, iter')"
    and out: "out = return_output f full_output (drop_al (a, b, flag, iter'))"
    by (cases "converge (\<lambda>iter. al_step fm f con df rho dft dxt) (al_meas f df) gt dft dxt mi
          (al_init con x) 0")
       (auto simp: augmented_lagrangian_def al_loop_converge)
  obtain x_prev mu_prev lambda_prev where a: "a = (x_prev, mu_prev, lambda_prev)" by (cases a)
  obtain x_new mu_new lambda_new where b: "b = (x_new, mu_new, lambda_new)" by (cases b)
  from converge_run[OF c] obtain k where k: "iter' = int k + 1"
    "steps_from (\<lambda>iter. al_step fm f con df rho dft dxt) 0 (al_init con x) k = Inr a"
    "steps_from (\<lambda>iter. al_step fm f con df rho dft dxt) 0 (al_init con x) (Suc k) = Inr b"
    "exit_flag_priority (int k + 1) mi (al_meas f df a b) gt dxt dft flag"
    "\<forall>j<k. flag_at (\<lambda>iter. al_step fm f con df rho dft dxt) (al_meas f df) gt dft dxt mi 0
             (al_init con x) j = None"
    by blast
  have "out = return_output f full_output (x_new, flag, int k + 1) \<and>
        al_iterate fm f con df rho dft dxt x k = Inr (x_prev, mu_prev, lambda_prev) \<and>
        al_iterate fm f con df rho dft dxt x (Suc k) = Inr (x_new, mu_new, lambda_new) \<and>
        exit_flag_priority (int k + 1) mi (measures f df x_prev x_new) gt dxt dft flag \<and>
        (\<forall>j<k. al_pass_flag fm f con df rho gt dft dxt mi x j = None)"
    using out a b k
    by (simp add: al_iterate_def al_pass_flag_def drop_al_def al_meas_def del: steps_from.simps)
  then show ?thesis by blast
qed

lemma cg_iterate_Suc:
  "cg_iterate fm f df x0 (Suc k) =
     (case cg_iterate fm f df x0 k of Inl e \<Rightarrow> Inl e | Inr st \<Rightarrow> cg_step fm f df (int k) st)"
  by (cases "cg_init fm f df x0")
     (simp_all add: cg_iterate_def steps_from_Suc del: steps_from.simps split: sum.splits)

lemma cg_iterate_length:
  assumes "keeps_dimension df" and "cg_iterate fm f df x0 k = Inr (x, x_new, s)"
  shows "length x = length x0 \<and> length x_new = length x0 \<and> length s = length x0"
  using assms(2)
proof (induction k arbitrary: x x_new s)
  case 0
  then have init: "cg_init fm f df x0 = Inr (x, x_new, s)"
    by (cases "cg_init fm f df x0") (simp_all add: cg_iterate_def)
  then have s: "vdiv (vneg (df f x0)) (linalg_norm (vneg (df f x0))) = Inr s"
    and x: "x = x0" and x_new: "x_new = vadd x0 (smul (fm (\<lambda>alpha. f (vadd x0 (smul alpha s))) 0 1) s)"
    by (auto simp: cg_init_def Let_def split: sum.splits)
  have "length s = length x0"
    using vdiv_length[OF s] assms(1) by (simp add: keeps_dimension_def)
  then show ?case using x x_new by simp
next
  case (Suc k)
  from Suc.prems obtain st where st: "cg_iterate fm f df x0 k = Inr st"
    and step: "cg_step fm f df (int k) st = Inr (x, x_new, s)"
    by (auto simp: cg_iterate_Suc split: sum.splits)
  obtain a b c where abc: "st = (a, b, c)" by (cases st)
  from Suc.IH[OF st[unfolded abc]] have l: "length a = length x0" "length b = length x0"
    "length c = length x0" by simp_all
  from cg_step_parts[OF step[unfolded abc]] obtain d where
    d: "cg_direction f df a b c (int k) = Inr d" and s: "vdiv d (linalg_norm d) = Inr s"
    and x: "x = b" and x_new: "x_new = vadd b (smul (fm (\<lambda>alpha. f (vadd b (smul alpha s))) 0 1) s)"
    by blast
  have "length d = length x0"
    using d l assms(1) by (auto simp: cg_direction_def keeps_dimension_def split: if_splits)
  then have "length s = length x0" using vdiv_length[OF s] by simp
  then show ?case using x x_new l by simp
qed

lemma sd_error:
  assumes "steepest_descent fm f x df gt dft dxt mi full_output = Inl e"
  shows "\<exists>k. sd_iterate fm f df x (Suc k) = Inl e \<and>
             (\<forall>j<k. sd_pass_flag fm f df gt dft dxt mi x j = None)"
proof -
  from assms have "converge (\<lambda>iter. sd_step fm f df) (measures f df) gt dft dxt mi x 0 = Inl e"
    by (cases "converge (\<lambda>iter. sd_step fm f df) (measures f df) gt dft dxt mi x 0")
       (simp_all add: steepest_descent_def sd_loop_converge)
  from converge_error[OF this] show ?thesis
    unfolding sd_iterate_def sd_pass_flag_def .
qed

lemma cg_error:
  assumes "conjugate_gradient fm f x df gt dft dxt mi full_output = Inl e"
  shows "\<exists>k. cg_iterate fm f df x (Suc k) = Inl e \<and>
             (\<forall>j<k. cg_pass_flag fm f df gt dft dxt mi x j = None)"
proof (cases "cg_init fm f df x")
  case (Inl e')
  with assms have "e' = e" by (simp add: conjugate_gradient_def)
  with Inl have "cg_iterate fm f df x (Suc 0) = Inl e \<and>
             (\<forall>j<0. cg_pass_flag fm f df gt dft dxt mi x j = None)"
    by (simp add: cg_iterate_def)
  then show ?thesis by blast
next
  case (Inr st0)
  obtain x0 x1 s0 where st0: "st0 = (x0, x1, s0)" by (cases st0)
  from assms Inr st0 have "converge (cg_step fm f df) (cg_meas f df) gt dft dxt mi st0 0 = Inl e"
    by (cases "converge (cg_step fm f df) (cg_meas f df) gt dft dxt mi st0 0")
       (simp_all add: conjugate_gradient_def cg_loop_converge)
  from converge_error[OF this] obtain k where
    "steps_from (cg_step fm f df) 0 st0 (Suc k) = Inl e"
    "\<forall>j<k. flag_at (cg_step fm f df) (cg_meas f df) gt dft dxt mi 0 st0 j = None"
    by blast
  with Inr have "cg_iterate fm f df x (Suc k) = Inl e \<and>
             (\<forall>j<k. cg_pass_flag fm f df gt dft dxt mi x j = None)"
    by (simp add: cg_iterate_def cg_pass_flag_def del: steps_from.simps)
  then show ?thesis by blast
qed

lemma qn_error:
  assumes "quasi_newton fm f x df gt dft dxt mi full_output upd = Inl e"
  shows "\<exists>k. qn_iterate fm f df upd x (Suc k) = Inl e \<and>
             (\<forall>j<k. qn_pass_flag fm f df gt dft dxt mi upd x j = None)"
proof -
  from assms have "converge (\<lambda>iter. qn_step fm f df upd) (qn_meas f df) gt dft dxt mi
      (Inr (eye (length x)), x) 0 = Inl e"
    by (cases "converge (\<lambda>iter. qn_step fm f df upd) (qn_meas f df) gt dft dxt mi
      (Inr (eye (length x)), x) 0")
       (simp_all add: quasi_newton_def qn_loop_converge)
  from converge_error[OF this] show ?thesis
    unfolding qn_iterate_def qn_pass_flag_def .
qed

section \<open>Example runs\<close>

lemma linalg_norm_single [simp]: "linalg_norm [a] = \<bar>a\<bar>"
  by (simp add: linalg_norm_def)

lemma sq_f_line [simp]: "sq_f (vadd [a] (smul alpha [s])) = (a + alpha * s)\<^sup>2"
  by (simp add: sq_f_def vadd_def smul_def)

lemma sq_f_single [simp]: "sq_f [a] = a\<^sup>2"
  by (simp add: sq_f_def)

lemma sq_grad_single [simp]: "sq_grad f [a] = [2 * a]"
  by (simp add: sq_grad_def)

lemma fminbound_grid_unit:
  "fminbound_grid func 0 1 =
     (if func (1 / 2) < func 0 \<and> func (1 / 2) \<le> func 1 then 1 / 2
      else if func 1 < func 0 then 1 else 0)"
  by (simp add: fminbound_grid_def Let_def)

lemma sd_step_example:
  "sd_step fminbound_grid sq_f sq_grad [1 / 2] = Inr [0]"
  "sd_step fminbound_grid sq_f sq_grad [4] = Inr [3]"
  "sd_step fminbound_grid sq_f sq_grad [3] = Inr [2]"
  by (simp_all add: sd_step_def vneg_def vdiv_def fminbound_grid_unit power2_eq_square)
     (simp_all add: vadd_def smul_def)

lemma cg_init_example:
  "cg_init fminbound_grid sq_f sq_grad [3 / 2] = Inr ([3 / 2], [1 / 2], [- 1])"
  "cg_init fminbound_grid sq_f sq_grad [4] = Inr ([4], [3], [- 1])"
  by (simp_all add: cg_init_def vneg_def vdiv_def fminbound_grid_unit power2_eq_square)
     (simp_all add: vadd_def smul_def)

lemma cg_step_example:
  "cg_step fminbound_grid sq_f sq_grad iter ([3 / 2], [1 / 2], [- 1]) = Inr ([1 / 2], [0], [- 1])"
  "cg_step fminbound_grid sq_f sq_grad iter ([4], [3], [- 1]) = Inr ([3], [2], [- 1])"
  "cg_step fminbound_grid sq_f sq_grad iter ([3], [2], [- 1]) = Inr ([2], [1], [- 1])"
  by (simp_all add: cg_step_def cg_direction_def vneg_def vdiv_def fminbound_grid_unit
        power2_eq_square)
     (simp_all add: vadd_def smul_def)

lemma BFGS_update_example:
  "BFGS_update [[1]] [- (1 / 2)] [- 1] = Inr [[- (1 / 2)]]"
  "BFGS_update [[1]] [- 1] [- 2] = Inr [[- (1 / 2)]]"
  "BFGS_update [[1 / 2]] [- 1] [- 2] = Inr [[0]]"
  by (simp_all add: BFGS_update_def dot_def vec_mat_def outer_def mat_smul_def mat_sdiv_def
      mat_add_def mat_sub_def smul_def vadd_def vsub_def)

lemma qn_step_example:
  "qn_step fminbound_grid sq_f sq_grad BFGS_update (Inr [[1]], [1 / 2]) = Inr (Inr [[1 / 2]], [0])"
  "qn_step fminbound_grid sq_f sq_grad BFGS_update (Inr [[1]], [4]) = Inr (Inr [[1 / 2]], [3])"
  "qn_step fminbound_grid sq_f sq_grad BFGS_update (Inr [[1 / 2]], [3]) = Inr (Inr [[1 / 2]], [2])"
  by (simp_all add: qn_step_def mat_vec_def mat_neg_def dot_def vneg_def vdiv_def
        fminbound_grid_unit power2_eq_square)
     (simp_all add: vadd_def smul_def vsub_def BFGS_update_example mat_add_def)

lemma solver_run_examples:
  "steepest_descent fminbound_grid sq_f [1 / 2] sq_grad (1 / 10 ^ 5) (1 / 10 ^ 5) 1 100 True
     = Inr ([0], Some (0, 1, 1))"
  "conjugate_gradient fminbound_grid sq_f [3 / 2] sq_grad (1 / 10 ^ 5) (1 / 10 ^ 5) 1 100 True
     = Inr ([0], Some (0, 1, 1))"
  "quasi_newton fminbound_grid sq_f [1 / 2] sq_grad (1 / 10 ^ 5) (1 / 10 ^ 5) 1 100 True BFGS_update
     = Inr ([0], Some (0, 1, 1))"
  by (simp_all add: steepest_descent_def sd_loop.simps[of _ _ _ _ _ _ _ _ 0] sd_step_example
      conjugate_gradient_def cg_init_example cg_loop.simps[of _ _ _ _ _ _ _ _ _ _ 0] cg_step_example
      quasi_newton_def eye_def qn_loop.simps[of _ _ _ _ _ _ _ _ _ _ 0] qn_step_example
      check_convergence_def vsub_def)

lemma no_worse_than_zero_step_grid: "no_worse_than_zero_step fminbound_grid"
  by (simp add: no_worse_than_zero_step_def fminbound_grid_unit)

lemma keeps_dimension_sq_grad: "keeps_dimension sq_grad"
  by (simp add: keeps_dimension_def sq_grad_def)

lemma budget_examples:
  "sd_iterate fminbound_grid sq_f sq_grad [4] (Suc 1) = Inr [2]"
  "cg_iterate fminbound_grid sq_f sq_grad [4] (Suc 1) = Inr ([2], [1], [- 1])"
  "qn_iterate fminbound_grid sq_f sq_grad BFGS_update [4] (Suc 1) = Inr (Inr [[1 / 2]], [2])"
  "sd_pass_flag fminbound_grid sq_f sq_grad (1 / 10 ^ 5) (1 / 10 ^ 5) (1 / 10 ^ 5) 2 [4] 0 = None"
  "cg_pass_flag fminbound_grid sq_f sq_grad (1 / 10 ^ 5) (1 / 10 ^ 5) (1 / 10 ^ 5) 2 [4] 0 = None"
  "qn_pass_flag fminbound_grid sq_f sq_grad (1 / 10 ^ 5) (1 / 10 ^ 5) (1 / 10 ^ 5) 2 BFGS_update [4] 0
     = None"
  by (simp_all add: sd_iterate_def cg_iterate_def qn_iterate_def sd_pass_flag_def cg_pass_flag_def
      qn_pass_flag_def flag_at_def pass_flag_def measures_def cg_meas_def qn_meas_def
      check_convergence_def sd_step_example cg_init_example cg_step_example qn_step_example
      eye_def vsub_def)

lemma linalg_norm_pair0 [simp]: "linalg_norm [a, 0] = \<bar>a\<bar>"
  by (simp add: linalg_norm_def)

lemma sq_f_line2 [simp]: "sq_f (vadd [a, 0] (smul alpha [s, 0])) = (a + alpha * s)\<^sup>2"
  by (simp add: sq_f_def vadd_def smul_def)

lemma cg_direction_examples2:
  "cg_direction sq_f sq_grad [4, 0] [3, 0] [- 1, 0] 0 = Inr [- 6, 0]"
  "cg_direction sq_f sq_grad [3, 0] [2, 0] [- 1, 0] 1 = Inr [- (40 / 9), 0]"
  by (simp_all add: cg_direction_def sq_grad_def vneg_def vadd_def smul_def)

lemma vdiv_examples2:
  "vdiv [- 6, 0] (linalg_norm [- 6, 0]) = Inr [- 1, 0]"
  "vdiv [- (40 / 9), 0] (linalg_norm [- (40 / 9), 0]) = Inr [- 1, 0]"
  by (simp_all add: vdiv_def)

lemma cg_examples2:
  "cg_init fminbound_grid sq_f sq_grad [4, 0] = Inr ([4, 0], [3, 0], [- 1, 0])"
  "cg_step fminbound_grid sq_f sq_grad 0 ([4, 0], [3, 0], [- 1, 0]) = Inr ([3, 0], [2, 0], [- 1, 0])"
  "cg_step fminbound_grid sq_f sq_grad 1 ([3, 0], [2, 0], [- 1, 0]) = Inr ([2, 0], [1, 0], [- 1, 0])"
  by (simp_all add: cg_init_def cg_step_def cg_direction_examples2 vdiv_examples2 sq_grad_def
        vneg_def vdiv_def fminbound_grid_unit power2_eq_square)
     (simp_all add: vadd_def smul_def)

lemma cg_iterate_examples2:
  "cg_iterate fminbound_grid sq_f sq_grad [4, 0] 0 = Inr ([4, 0], [3, 0], [- 1, 0])"
  "cg_iterate fminbound_grid sq_f sq_grad [4, 0] (Suc 0) = Inr ([3, 0], [2, 0], [- 1, 0])"
  "cg_iterate fminbound_grid sq_f sq_grad [4, 0] 1 = Inr ([3, 0], [2, 0], [- 1, 0])"
  "cg_iterate fminbound_grid sq_f sq_grad [4, 0] (Suc 1) = Inr ([2, 0], [1, 0], [- 1, 0])"
  by (simp_all add: cg_iterate_def cg_examples2)

lemma upt_2: "[0..<Suc (Suc 0)] = [0, Suc 0]"
  by (simp add: upt_rec)

lemma al_example_L:
  "calc_augmented_lagrangian al_f al_con [a] [0] [0, 0] 1 =
     - a + (max 0 (a - 2))\<^sup>2 + (max 0 (a - 1 / 2))\<^sup>2 + (a - 3)\<^sup>2"
  by (simp add: calc_augmented_lagrangian_def calc_lagrangian_def al_f_def al_con_def dot_def upt_2)

lemma al_example_L_values:
  "calc_augmented_lagrangian al_f al_con [0] [0] [0, 0] 1 = 9"
  "calc_augmented_lagrangian al_f al_con [1 / 2] [0] [0, 0] 1 = 23 / 4"
  "calc_augmented_lagrangian al_f al_con [1] [0] [0, 0] 1 = 13 / 4"
  "calc_augmented_lagrangian al_f al_con [2] [0] [0, 0] 1 = 5 / 4"
  by (simp_all add: al_example_L power2_eq_square)

lemma fd_grad_forward_diff: "forward_diff f x 1 = Inr (fd_grad f x)"
  using forward_diff_fold[of "length x" x f 1]
  by (simp add: forward_diff_def forward_diff_counted_def fd_grad_def)

lemma fd_grad_single: "fd_grad f [a] = [f [a + 1] - f [a]]"
  by (simp add: fd_grad_def)

lemma al_example_qn_step:
  "qn_step fminbound_grid (\<lambda>x. calc_augmented_lagrangian al_f al_con x [0] [0, 0] 1) fd_grad
     BFGS_update (Inr [[1]], [0]) =
   Inr (map_sum id (mat_add [[1]]) (BFGS_update [[1]] [1] [15 / 4]), [1])"
  by (simp add: qn_step_def fd_grad_single al_example_L_values mat_vec_def mat_neg_def dot_def
        vneg_def vdiv_def fminbound_grid_unit)
     (simp add: Let_def vadd_def smul_def vsub_def fd_grad_single al_example_L_values)

lemma al_example_inner:
  "quasi_newton fminbound_grid (\<lambda>x. calc_augmented_lagrangian al_f al_con x [0] [0, 0] 1) [0]
     fd_grad 3 (1 / 100000) (1 / 100000) 100 False BFGS_update = Inr ([1], None)"
  by (simp add: quasi_newton_def eye_def qn_loop.simps[of _ _ _ _ _ _ _ _ _ _ 0] al_example_qn_step
      check_convergence_def fd_grad_single al_example_L_values)

lemma al_example_step:
  "al_step fminbound_grid al_f al_con fd_grad 1 3 (1 / 100000) ([0], [0, 0], [0]) =
     Inr ([1], [0, 1 / 2], [- 2])"
  by (simp add: al_step_def al_example_inner al_con_def vadd_def smul_def upt_2)

lemma al_example_iterate:
  "al_iterate fminbound_grid al_f al_con fd_grad 1 3 (1 / 100000) [0] 0 = Inr ([0], [0, 0], [0])"
  "al_iterate fminbound_grid al_f al_con fd_grad 1 3 (1 / 100000) [0] (Suc 0) =
     Inr ([1], [0, 1 / 2], [- 2])"
  by (simp_all add: al_iterate_def al_init_def al_con_def al_example_step)

lemma al_example_run:
  "augmented_lagrangian fminbound_grid al_f al_con [0] fd_grad 1 2 3 (1 / 100000) 100 True =
     Inr ([1], Some (- 1, 1, 1))"
  by (simp add: augmented_lagrangian_def al_init_def al_con_def
      al_loop.simps[of _ _ _ _ _ _ _ _ _ _ _ _ 0] al_example_step check_convergence_def
      fd_grad_single al_f_def)

lemma al_example_gradients:
  "linalg_norm (fd_grad (\<lambda>x. calc_lagrangian al_f al_con x [- 2] [0, 1 / 2]) [1]) = 5 / 2"
  "linalg_norm (fd_grad al_f [1]) = 1"
  by (simp_all add: fd_grad_single calc_lagrangian_def al_f_def al_con_def dot_def)

lemma al_example_error:
  "quasi_newton fminbound_grid (\<lambda>x. calc_augmented_lagrangian (\<lambda>x. 0) al_con x [0] [0, 0] 0) [0]
     fd_grad 3 (1 / 100000) (1 / 10 ^ 5) 100 False BFGS_update = Inl DivisionByZero"
  by (simp add: quasi_newton_def eye_def qn_loop.simps[of _ _ _ _ _ _ _ _ _ _ 0] qn_step_def
      fd_grad_single calc_augmented_lagrangian_def calc_lagrangian_def al_con_def dot_def
      mat_vec_def mat_neg_def vneg_def vdiv_def)

lemma zero_direction_examples:
  "steepest_descent fminbound_grid sq_f [0] sq_grad (1 / 10 ^ 5) (1 / 10 ^ 5) 1 100 True
     = Inl DivisionByZero"
  "conjugate_gradient fminbound_grid sq_f [0] sq_grad (1 / 10 ^ 5) (1 / 10 ^ 5) 1 100 True
     = Inl DivisionByZero"
  "quasi_newton fminbound_grid sq_f [0] sq_grad (1 / 10 ^ 5) (1 / 10 ^ 5) 1 100 True BFGS_update
     = Inl DivisionByZero"
  by (simp_all add: steepest_descent_def sd_loop.simps[of _ _ _ _ _ _ _ _ 0] sd_step_def
      conjugate_gradient_def cg_init_def quasi_newton_def eye_def
      qn_loop.simps[of _ _ _ _ _ _ _ _ _ _ 0] qn_step_def mat_vec_def mat_neg_def dot_def
      vneg_def vdiv_def)

lemma fminbound_interior_unit:
  "fminbound_interior func 0 1 =
     (if func (1 / 4) \<le> func (1 / 2) \<and> func (1 / 4) \<le> func (3 / 4) then 1 / 4
      else if func (1 / 2) \<le> func (3 / 4) then 1 / 2 else 3 / 4)"
  by (simp add: fminbound_interior_def Let_def)

lemma interior_worse_than_zero_step: "\<not> no_worse_than_zero_step fminbound_interior"
proof
  assume "no_worse_than_zero_step fminbound_interior"
  from this[unfolded no_worse_than_zero_step_def, rule_format, of "\<lambda>a. a"]
  show False by (simp add: fminbound_interior_unit)
qed

lemma sd_step_uphill:
  "sd_step fminbound_interior sq_f fd_grad [0] = Inr [- (1 / 4)]"
  "sd_step fminbound_interior sq_f fd_grad [- (1 / 4)] = Inr [- (1 / 2)]"
  by (simp_all add: sd_step_def fd_grad_single sq_f_def vneg_def vdiv_def linalg_norm_single
        fminbound_interior_unit vadd_def smul_def power2_eq_square)

lemma uphill_run:
  "sd_iterate fminbound_interior sq_f fd_grad [0] 0 = Inr [0]"
  "sd_iterate fminbound_interior sq_f fd_grad [0] 1 = Inr [- (1 / 4)]"
  "sd_iterate fminbound_interior sq_f fd_grad [0] (Suc 1) = Inr [- (1 / 2)]"
  "sd_pass_flag fminbound_interior sq_f fd_grad 0 0 0 2 [0] 0 = None"
  by (simp_all add: sd_iterate_def sd_pass_flag_def flag_at_def pass_flag_def measures_def
      check_convergence_def sd_step_uphill fd_grad_single sq_f_def vsub_def linalg_norm_single
      power2_eq_square)

lemma bit_length_examples:
  "bit_length 0 = 0" "bit_length 1 = 1" "bit_length 2 = 2" "bit_length 3 = 2"
  "bit_length 6 = 3" "bit_length 12 = 4" "bit_length 24 = 5" "bit_length 48 = 6"
proof -
  show b0: "bit_length 0 = 0" by (simp add: bit_length.simps[of 0])
  show b1: "bit_length 1 = 1" by (simp add: bit_length.simps[of 1] b0)
  show b2: "bit_length 2 = 2" by (simp add: bit_length.simps[of 2] b1)
  show b3: "bit_length 3 = 2" by (simp add: bit_length.simps[of 3] b1)
  show b6: "bit_length 6 = 3" by (simp add: bit_length.simps[of 6] b3)
  show b12: "bit_length 12 = 4" by (simp add: bit_length.simps[of 12] b6)
  show b24: "bit_length 24 = 5" by (simp add: bit_length.simps[of 24] b12)
  show "bit_length 48 = 6" by (simp add: bit_length.simps[of 48] b24)
qed

lemma binary_exponent_examples:
  "binary_exponent (1 / 49) = - 6"
  "binary_exponent (288230376151711721 / 288230376151711744) = - 1"
  "binary_exponent 1 = 0" "binary_exponent 2 = 1" "binary_exponent 6 = 2"
  by (simp_all add: binary_exponent_def bit_length_examples)

lemma float64_nearest_examples:
  "float64_nearest (1 / 49) = 5882252574524729 / 2 ^ 58"
  "float64_nearest (288230376151711721 / 288230376151711744) = 1 - 1 / 2 ^ 53"
  "float64_nearest 1 = 1" "float64_nearest 2 = 2" "float64_nearest 6 = 6"
  by (simp_all add: float64_nearest_def binary_exponent_examples round_half_even_def Let_def)

lemma float64_round_examples:
  "float64_round (1 / 49) = Inr (5882252574524729 / 2 ^ 58)"
  "float64_round (288230376151711721 / 288230376151711744) = Inr (1 - 1 / 2 ^ 53)"
  "float64_round 1 = Inr 1" "float64_round 2 = Inr 2" "float64_round 6 = Inr 6"
  by (simp_all add: float64_round_def float64_nearest_examples)

lemma scale_examples:
  "scale [1] [49] = Inr [5882252574524729 / 2 ^ 58]"
  "descale [5882252574524729 / 2 ^ 58] [49] = Inr [1 - 1 / 2 ^ 53]"
  "scale [2] [1, 2] = Inr [2, 1]"
  "descale [2, 1] [1, 2] = Inr [2, 2]"
  "scale [1, 6] [49, 3] = Inr [5882252574524729 / 2 ^ 58, 2]"
  "descale [5882252574524729 / 2 ^ 58, 2] [49, 3] = Inr [1 - 1 / 2 ^ 53, 6]"
  by (simp_all add: scale_def descale_def broadcast2_def float64_divide_def float64_multiply_def
      float64_round_examples)

lemma binary_exponent_extremes:
  "binary_exponent (1 / 2 ^ 1075) = - 1075"
  "binary_exponent (2 ^ 1024) = 1024"
  by (rule binary_exponent_unique; simp add: power_int_minus_divide)+

lemma float64_round_extremes:
  "float64_round (1 / 2 ^ 1075) = Inr 0"
  "float64_round (2 ^ 1024) = Inl Overflow"
  using binary_exponent_extremes
  by (simp_all add: float64_round_def float64_nearest_def round_half_even_def Let_def
      power_int_minus_divide)

lemma scale_extremes:
  "scale [1 / 2 ^ 1074] [2] = Inr [0]"
  "descale [0] [2] = Inr [0]"
  "scale [2 ^ 1023] [1 / 2] = Inl Overflow"
  using float64_round_extremes
  by (simp_all add: scale_def descale_def broadcast2_def float64_divide_def float64_multiply_def)

section \<open>Exit flags of the unconstrained solvers\<close>

text \<open>
  C1. A call of \<open>steepest_descent\<close>, \<open>conjugate_gradient\<close> or \<open>quasi_newton\<close>
  that returns, returns after some pass \<open>k + 1\<close> with one exit flag among 0, 1, 2, 3, and
  the flag is the first condition that holds in the order: iteration count at least
  \<open>max_iter\<close> (0), gradient norm at \<open>x_new\<close> at most \<open>grad_tol\<close> (1), norm of
  \<open>x_new - x\<close> at most \<open>delta_x_tol\<close> (2), change of \<open>f\<close> at most \<open>delta_f_tol\<close>
  (3), evaluated on the last two iterates; in no earlier pass did any condition hold. In
  particular, below the budget, when the gradient norm and the step norm are both within
  tolerance the flag is 1. The only other outcome of a call is a failure of one of its
  passes (a division by zero; for \<open>conjugate_gradient\<close> also the modulo by zero on an
  empty vector), before any condition held.
\<close>

theorem exit_flag_priority_order:
  "(steepest_descent fminbound f x delta_f grad_tol delta_f_tol delta_x_tol max_iter True = Inr out \<longrightarrow>
      (\<exists>k x_prev x_new flag.
          out = (x_new, Some (f x_new, flag, int k + 1)) \<and>
          sd_iterate fminbound f delta_f x k = Inr x_prev \<and>
          sd_iterate fminbound f delta_f x (Suc k) = Inr x_new \<and>
          exit_flag_priority (int k + 1) max_iter (measures f delta_f x_prev x_new)
            grad_tol delta_x_tol delta_f_tol flag \<and>
          (\<forall>j<k. sd_pass_flag fminbound f delta_f grad_tol delta_f_tol delta_x_tol max_iter x j
                  = None)))
   \<and> (conjugate_gradient fminbound f x delta_f grad_tol delta_f_tol delta_x_tol max_iter True = Inr out \<longrightarrow>
      (\<exists>k st x_prev x_new s flag.
          out = (x_new, Some (f x_new, flag, int k + 1)) \<and>
          cg_iterate fminbound f delta_f x k = Inr st \<and>
          cg_iterate fminbound f delta_f x (Suc k) = Inr (x_prev, x_new, s) \<and>
          exit_flag_priority (int k + 1) max_iter (measures f delta_f x_prev x_new)
            grad_tol delta_x_tol delta_f_tol flag \<and>
          (\<forall>j<k. cg_pass_flag fminbound f delta_f grad_tol delta_f_tol delta_x_tol max_iter x j
                  = None)))
   \<and> (quasi_newton fminbound f x delta_f grad_tol delta_f_tol delta_x_tol max_iter True update_rule
        = Inr out \<longrightarrow>
      (\<exists>k B_prev x_prev B x_new flag.
          out = (x_new, Some (f x_new, flag, int k + 1)) \<and>
          qn_iterate fminbound f delta_f update_rule x k = Inr (B_prev, x_prev) \<and>
          qn_iterate fminbound f delta_f update_rule x (Suc k) = Inr (B, x_new) \<and>
          exit_flag_priority (int k + 1) max_iter (measures f delta_f x_prev x_new)
            grad_tol delta_x_tol delta_f_tol flag \<and>
          (\<forall>j<k. qn_pass_flag fminbound f delta_f grad_tol delta_f_tol delta_x_tol max_iter
                    update_rule x j = None)))
   \<and> (exit_flag_priority iter max_iter (grad_norm, step_norm, f_change)
          grad_tol delta_x_tol delta_f_tol flag \<and>
        iter < max_iter \<and> grad_norm \<le> grad_tol \<and> step_norm \<le> delta_x_tol \<longrightarrow> flag = 1)
   \<and> (steepest_descent fminbound f x delta_f grad_tol delta_f_tol delta_x_tol max_iter True = Inl e \<longrightarrow>
      (\<exists>k. sd_iterate fminbound f delta_f x (Suc k) = Inl e \<and>
          (\<forall>j<k. sd_pass_flag fminbound f delta_f grad_tol delta_f_tol delta_x_tol max_iter x j
                  = None)))
   \<and> (conjugate_gradient fminbound f x delta_f grad_tol delta_f_tol delta_x_tol max_iter True = Inl e \<longrightarrow>
      (\<exists>k. cg_iterate fminbound f delta_f x (Suc k) = Inl e \<and>
          (\<forall>j<k. cg_pass_flag fminbound f delta_f grad_tol delta_f_tol delta_x_tol max_iter x j
                  = None)))
   \<and> (quasi_newton fminbound f x delta_f grad_tol delta_f_tol delta_x_tol max_iter True update_rule
        = Inl e \<longrightarrow>
      (\<exists>k. qn_iterate fminbound f delta_f update_rule x (Suc k) = Inl e \<and>
          (\<forall>j<k. qn_pass_flag fminbound f delta_f grad_tol delta_f_tol delta_x_tol max_iter
                    update_rule x j = None)))"
proof (intro conjI impI)
  assume "steepest_descent fminbound f x delta_f grad_tol delta_f_tol delta_x_tol max_iter True = Inr out"
  from sd_result[OF this] show "\<exists>k x_prev x_new flag.
          out = (x_new, Some (f x_new, flag, int k + 1)) \<and>
          sd_iterate fminbound f delta_f x k = Inr x_prev \<and>
          sd_iterate fminbound f delta_f x (Suc k) = Inr x_new \<and>
          exit_flag_priority (int k + 1) max_iter (measures f delta_f x_prev x_new)
            grad_tol delta_x_tol delta_f_tol flag \<and>
          (\<forall>j<k. sd_pass_flag fminbound f delta_f grad_tol delta_f_tol delta_x_tol max_iter x j
                  = None)"
    by simp
next
  assume "conjugate_gradient fminbound f x delta_f grad_tol delta_f_tol delta_x_tol max_iter True = Inr out"
  from cg_result[OF this] show "\<exists>k st x_prev x_new s flag.
          out = (x_new, Some (f x_new, flag, int k + 1)) \<and>
          cg_iterate fminbound f delta_f x k = Inr st \<and>
          cg_iterate fminbound f delta_f x (Suc k) = Inr (x_prev, x_new, s) \<and>
          exit_flag_priority (int k + 1) max_iter (measures f delta_f x_prev x_new)
            grad_tol delta_x_tol delta_f_tol flag \<and>
          (\<forall>j<k. cg_pass_flag fminbound f delta_f grad_tol delta_f_tol delta_x_tol max_iter x j
                  = None)"
    by simp
next
  assume "quasi_newton fminbound f x delta_f grad_tol delta_f_tol delta_x_tol max_iter True update_rule
        = Inr out"
  from qn_result[OF this] show "\<exists>k B_prev x_prev B x_new flag.
          out = (x_new, Some (f x_new, flag, int k + 1)) \<and>
          qn_iterate fminbound f delta_f update_rule x k = Inr (B_prev, x_prev) \<and>
          qn_iterate fminbound f delta_f update_rule x (Suc k) = Inr (B, x_new) \<and>
          exit_flag_priority (int k + 1) max_iter (measures f delta_f x_prev x_new)
            grad_tol delta_x_tol delta_f_tol flag \<and>
          (\<forall>j<k. qn_pass_flag fminbound f delta_f grad_tol delta_f_tol delta_x_tol max_iter
                    update_rule x j = None)"
    by simp
next
  assume "exit_flag_priority iter max_iter (grad_norm, step_norm, f_change)
          grad_tol delta_x_tol delta_f_tol flag \<and>
        iter < max_iter \<and> grad_norm \<le> grad_tol \<and> step_norm \<le> delta_x_tol"
  then show "flag = 1" by (simp add: exit_flag_priority_def)
next
  assume "steepest_descent fminbound f x delta_f grad_tol delta_f_tol delta_x_tol max_iter True = Inl e"
  from sd_error[OF this] show "\<exists>k. sd_iterate fminbound f delta_f x (Suc k) = Inl e \<and>
          (\<forall>j<k. sd_pass_flag fminbound f delta_f grad_tol delta_f_tol delta_x_tol max_iter x j
                  = None)" .
next
  assume "conjugate_gradient fminbound f x delta_f grad_tol delta_f_tol delta_x_tol max_iter True = Inl e"
  from cg_error[OF this] show "\<exists>k. cg_iterate fminbound f delta_f x (Suc k) = Inl e \<and>
          (\<forall>j<k. cg_pass_flag fminbound f delta_f grad_tol delta_f_tol delta_x_tol max_iter x j
                  = None)" .
next
  assume "quasi_newton fminbound f x delta_f grad_tol delta_f_tol delta_x_tol max_iter True update_rule
        = Inl e"
  from qn_error[OF this] show "\<exists>k. qn_iterate fminbound f delta_f update_rule x (Suc k) = Inl e \<and>
          (\<forall>j<k. qn_pass_flag fminbound f delta_f grad_tol delta_f_tol delta_x_tol max_iter
                    update_rule x j = None)" .
qed

theorem exit_flag_priority_order_witness:
  "steepest_descent fminbound_grid sq_f [1 / 2] sq_grad (1 / 10 ^ 5) (1 / 10 ^ 5) 1 100 True
     = Inr ([0], Some (0, 1, 1))
   \<and> conjugate_gradient fminbound_grid sq_f [3 / 2] sq_grad (1 / 10 ^ 5) (1 / 10 ^ 5) 1 100 True
     = Inr ([0], Some (0, 1, 1))
   \<and> quasi_newton fminbound_grid sq_f [1 / 2] sq_grad (1 / 10 ^ 5) (1 / 10 ^ 5) 1 100 True BFGS_update
     = Inr ([0], Some (0, 1, 1))
   \<and> exit_flag_priority 1 100 (measures sq_f sq_grad [1 / 2] [0]) (1 / 10 ^ 5) 1 (1 / 10 ^ 5) 1
   \<and> linalg_norm (sq_grad sq_f [0]) \<le> 1 / 10 ^ 5 \<and> linalg_norm (vsub [0] [1 / 2]) \<le> 1
   \<and> steepest_descent fminbound_grid sq_f [0] sq_grad (1 / 10 ^ 5) (1 / 10 ^ 5) 1 100 True
     = Inl DivisionByZero
   \<and> (\<exists>k. sd_iterate fminbound_grid sq_f sq_grad [0] (Suc k) = Inl DivisionByZero)
   \<and> (\<exists>k. cg_iterate fminbound_grid sq_f sq_grad [0] (Suc k) = Inl DivisionByZero)
   \<and> (\<exists>k. qn_iterate fminbound_grid sq_f sq_grad BFGS_update [0] (Suc k) = Inl DivisionByZero)"
proof -
  note inst = exit_flag_priority_order[where fminbound = fminbound_grid and f = sq_f
      and delta_f = sq_grad and grad_tol = "1 / 10 ^ 5" and delta_f_tol = "1 / 10 ^ 5"
      and delta_x_tol = 1 and max_iter = 100 and out = "([0], Some (0, 1, 1))"
      and update_rule = BFGS_update and e = DivisionByZero]
  note conj5 = conjunct2[THEN conjunct2, THEN conjunct2, THEN conjunct2]
  from inst[where x = "[0]", THEN conj5, THEN conjunct1, rule_format, OF zero_direction_examples(1)]
  have sd_err: "\<exists>k. sd_iterate fminbound_grid sq_f sq_grad [0] (Suc k) = Inl DivisionByZero"
    by blast
  from inst[where x = "[0]", THEN conj5, THEN conjunct2, THEN conjunct1, rule_format,
      OF zero_direction_examples(2)]
  have cg_err: "\<exists>k. cg_iterate fminbound_grid sq_f sq_grad [0] (Suc k) = Inl DivisionByZero"
    by blast
  from inst[where x = "[0]", THEN conj5, THEN conjunct2, THEN conjunct2, rule_format,
      OF zero_direction_examples(3)]
  have qn_err: "\<exists>k. qn_iterate fminbound_grid sq_f sq_grad BFGS_update [0] (Suc k) = Inl DivisionByZero"
    by blast
  from inst[where x = "[1 / 2]", THEN conjunct1, rule_format, OF solver_run_examples(1)]
  obtain k x_prev x_new flag where r:
    "([0], Some (0, 1, 1)) = (x_new, Some (sq_f x_new, flag, int k + 1))"
    "sd_iterate fminbound_grid sq_f sq_grad [1 / 2] k = Inr x_prev"
    "exit_flag_priority (int k + 1) 100 (measures sq_f sq_grad x_prev x_new)
       (1 / 10 ^ 5) 1 (1 / 10 ^ 5) flag"
    by blast
  from r(1) have "x_new = [0]" "flag = 1" "k = 0" by simp_all
  with r(2,3) have "exit_flag_priority 1 100 (measures sq_f sq_grad [1 / 2] [0])
      (1 / 10 ^ 5) 1 (1 / 10 ^ 5) 1"
    by (simp add: sd_iterate_def)
  then show ?thesis
    using solver_run_examples zero_direction_examples(1) sd_err cg_err qn_err
    by (simp add: vsub_def)
qed

section \<open>Multipliers of the augmented Lagrangian\<close>

text \<open>
  C2. In a run of \<open>augmented_lagrangian\<close> the multipliers start as zero vectors of the
  lengths of the two results of \<open>con\<close> at the starting point; after every outer pass
  \<open>mu_new = max(0, mu + rho g)\<close> entry by entry and \<open>lambda_new = lambda + rho h\<close>,
  for \<open>(g, h) = con(x_new)\<close>; so every entry of \<open>mu\<close> is at least 0 in every state of
  the run, and no sign is imposed on \<open>lambda\<close>. The states \<open>al_iterate \<dots> k\<close> are the
  states of the loop: a call that returns, returns the iterate of its last pass.
\<close>

theorem multiplier_updates:
  "al_iterate fminbound f con delta_f rho delta_f_tol delta_x_tol x_start 0 =
      Inr (x_start, replicate (length (fst (con x_start))) 0, replicate (length (snd (con x_start))) 0)
   \<and> (al_iterate fminbound f con delta_f rho delta_f_tol delta_x_tol x_start k = Inr (x, mu, lambda) \<longrightarrow>
        (\<forall>m\<in>set mu. 0 \<le> m))
   \<and> (al_iterate fminbound f con delta_f rho delta_f_tol delta_x_tol x_start k = Inr (x, mu, lambda) \<and>
       al_iterate fminbound f con delta_f rho delta_f_tol delta_x_tol x_start (Suc k) =
         Inr (x_new, mu_new, lambda_new) \<longrightarrow>
        mu_new = map2 (\<lambda>m g. max 0 (m + rho * g)) mu (fst (con x_new)) \<and>
        lambda_new = map2 (\<lambda>l h. l + rho * h) lambda (snd (con x_new)))
   \<and> (augmented_lagrangian fminbound f con x_start delta_f rho grad_tol delta_f_tol delta_x_tol max_iter
         full_output = Inr out \<longrightarrow>
        (\<exists>k mu lambda. al_iterate fminbound f con delta_f rho delta_f_tol delta_x_tol x_start (Suc k) =
           Inr (fst out, mu, lambda)))"
proof (intro conjI impI)
  show "al_iterate fminbound f con delta_f rho delta_f_tol delta_x_tol x_start 0 =
      Inr (x_start, replicate (length (fst (con x_start))) 0, replicate (length (snd (con x_start))) 0)"
    by (rule al_iterate_0)
next
  assume "al_iterate fminbound f con delta_f rho delta_f_tol delta_x_tol x_start k = Inr (x, mu, lambda)"
  from al_iterate_mu_nonneg[OF this] show "\<forall>m\<in>set mu. 0 \<le> m" by (simp add: list_all_iff)
next
  assume a: "al_iterate fminbound f con delta_f rho delta_f_tol delta_x_tol x_start k = Inr (x, mu, lambda) \<and>
       al_iterate fminbound f con delta_f rho delta_f_tol delta_x_tol x_start (Suc k) =
         Inr (x_new, mu_new, lambda_new)"
  then have "al_step fminbound f con delta_f rho delta_f_tol delta_x_tol (x, mu, lambda) =
      Inr (x_new, mu_new, lambda_new)"
    by (auto simp: al_iterate_Suc)
  note parts = al_step_parts[OF this, unfolded map_max_vadd_smul, unfolded vadd_smul_map2]
  from parts show "mu_new = map2 (\<lambda>m g. max 0 (m + rho * g)) mu (fst (con x_new))"
    by blast
  from parts show "lambda_new = map2 (\<lambda>l h. l + rho * h) lambda (snd (con x_new))"
    by blast
next
  assume "augmented_lagrangian fminbound f con x_start delta_f rho grad_tol delta_f_tol delta_x_tol max_iter
         full_output = Inr out"
  from al_result[OF this] obtain k x_new mu_new lambda_new flag where
    "out = return_output f full_output (x_new, flag, int k + 1)"
    "al_iterate fminbound f con delta_f rho delta_f_tol delta_x_tol x_start (Suc k) =
       Inr (x_new, mu_new, lambda_new)"
    by blast
  then have "al_iterate fminbound f con delta_f rho delta_f_tol delta_x_tol x_start (Suc k) =
       Inr (fst out, mu_new, lambda_new)"
    by (simp add: return_output_def)
  then show "\<exists>k mu lambda. al_iterate fminbound f con delta_f rho delta_f_tol delta_x_tol x_start (Suc k) =
           Inr (fst out, mu, lambda)"
    by blast
qed


theorem multiplier_updates_witness:
  "al_iterate fminbound_grid al_f al_con fd_grad 1 3 (1 / 100000) [0] 0 = Inr ([0], [0, 0], [0])
   \<and> al_iterate fminbound_grid al_f al_con fd_grad 1 3 (1 / 100000) [0] (Suc 0) =
        Inr ([1], [0, 1 / 2], [- 2])
   \<and> [0, 1 / 2] = map2 (\<lambda>m g. max 0 (m + 1 * g)) [0, 0] (fst (al_con [1]))
   \<and> [- 2] = map2 (\<lambda>l h. l + 1 * h) [0] (snd (al_con [1]))
   \<and> list_all (\<lambda>m. 0 \<le> m) [0, 1 / 2 :: real]
   \<and> augmented_lagrangian fminbound_grid al_f al_con [0] fd_grad 1 2 3 (1 / 100000) 100 True =
        Inr ([1], Some (- 1, 1, 1))"
proof -
  note inst = multiplier_updates[where fminbound = fminbound_grid and f = al_f and con = al_con
      and delta_f = fd_grad and rho = 1 and delta_f_tol = 3 and delta_x_tol = "1 / 100000"
      and x_start = "[0]" and grad_tol = 2 and max_iter = 100 and full_output = True]
  note it0 = al_example_iterate(1) and it1 = al_example_iterate(2)
  from inst[where k = "Suc 0" and x = "[1]" and mu = "[0, 1 / 2]" and lambda = "[- 2]",
      THEN conjunct2, THEN conjunct1, rule_format, OF it1]
  have nonneg: "list_all (\<lambda>m. 0 \<le> m) [0, 1 / 2 :: real]"
    unfolding list_all_iff by blast
  note upd = inst[where k = 0 and x = "[0]" and mu = "[0, 0]" and lambda = "[0]" and x_new = "[1]"
      and mu_new = "[0, 1 / 2]" and lambda_new = "[- 2]",
      THEN conjunct2, THEN conjunct2, THEN conjunct1, rule_format, OF conjI[OF it0 it1]]
  show ?thesis
    using it0 it1 upd nonneg al_example_run by blast
qed

section \<open>The outer convergence check\<close>

text \<open>
  C3. The loop computes \<open>delta_L_new\<close>, the gradient of the Lagrangian at the new
  multipliers, and never reads it: the outer chain tests the gradient of \<open>f\<close>. On the
  example below the call returns exit flag 1 after its first outer pass for
  \<open>grad_tol = 2\<close>, because the norm of the gradient of \<open>f\<close> at \<open>x_new\<close> is 1, while
  the norm of the recomputed Lagrangian gradient is \<open>5/2\<close>.
\<close>

theorem outer_check_ignores_lagrangian_gradient:
  "augmented_lagrangian fminbound_grid al_f al_con [0] fd_grad 1 2 3 (1 / 10 ^ 5) 100 True =
     Inr ([1], Some (- 1, 1, 1))
   \<and> al_iterate fminbound_grid al_f al_con fd_grad 1 3 (1 / 10 ^ 5) [0] 1 =
     Inr ([1], [0, 1 / 2], [- 2])
   \<and> linalg_norm (fd_grad (\<lambda>x. calc_lagrangian al_f al_con x [- 2] [0, 1 / 2]) [1]) = 5 / 2
   \<and> linalg_norm (fd_grad al_f [1]) = 1"
  using al_example_run al_example_iterate(2) al_example_gradients by simp

section \<open>Value of the penalised objective\<close>

text \<open>
  C4. The function returned by \<open>constrained_to_unconstrained\<close> maps \<open>x\<close> to
  \<open>f(x) + p (\<Sum> max(0, g\<^sub>i)\<^sup>2 + \<Sum> h\<^sub>j\<^sup>2)\<close> for \<open>(g, h) = con(x)\<close>, with \<open>p = 100\<close>
  when the caller passes none, and also when \<open>g\<close>, \<open>h\<close> or both are empty.
\<close>

theorem penalty_transform_value:
  "constrained_to_unconstrained f con x0 p x =
     f x + p * ((\<Sum>g\<^sub>i\<leftarrow>fst (con x). (max 0 g\<^sub>i)\<^sup>2) + (\<Sum>h\<^sub>j\<leftarrow>snd (con x). h\<^sub>j\<^sup>2))
   \<and> constrained_to_unconstrained_default f con x0 x =
     f x + 100 * ((\<Sum>g\<^sub>i\<leftarrow>fst (con x). (max 0 g\<^sub>i)\<^sup>2) + (\<Sum>h\<^sub>j\<leftarrow>snd (con x). h\<^sub>j\<^sup>2))
   \<and> constrained_to_unconstrained f (\<lambda>x. ([], h)) x0 p x = f x + p * (\<Sum>h\<^sub>j\<leftarrow>h. h\<^sub>j\<^sup>2)
   \<and> constrained_to_unconstrained f (\<lambda>x. (g, [])) x0 p x = f x + p * (\<Sum>g\<^sub>i\<leftarrow>g. (max 0 g\<^sub>i)\<^sup>2)
   \<and> constrained_to_unconstrained f (\<lambda>x. ([], [])) x0 p x = f x"
proof -
  have "constrained_to_unconstrained f c x0 p x =
     f x + p * ((\<Sum>g\<^sub>i\<leftarrow>fst (c x). (max 0 g\<^sub>i)\<^sup>2) + (\<Sum>h\<^sub>j\<leftarrow>snd (c x). h\<^sub>j\<^sup>2))" for c p
    by (simp add: constrained_to_unconstrained_def Let_def split_beta
        fold_index_sum[where F="\<lambda>v. (max 0 v)\<^sup>2"] fold_index_sum[where F="\<lambda>v. v\<^sup>2"])
  then show ?thesis by (simp add: constrained_to_unconstrained_default_def)
qed

section \<open>Conjugate-gradient direction\<close>

text \<open>
  C5. In pass \<open>k + 1\<close> of \<open>conjugate_gradient\<close> the iteration counter is \<open>k\<close>. The
  direction computed there, before it is normalized, is \<open>-gradient(f, x_new)\<close> when
  \<open>k mod n = 0\<close> and \<open>-gradient(f, x_new) + (\<parallel>gradient(f, x_new)\<parallel>\<^sup>2 /
  \<parallel>gradient(f, x)\<parallel>\<^sup>2) s\<close> otherwise, for the previous iterate \<open>x\<close>, the current
  one \<open>x_new\<close>, the previous normalized direction \<open>s\<close> and \<open>n\<close> the dimension of
  \<open>x\<close> (that of the starting point when the gradient estimator keeps dimensions); the
  new direction is its normalization and the new iterate the line-search step along it.
\<close>

theorem conjugate_gradient_direction:
  assumes "cg_iterate fminbound f delta_f x0 k = Inr (x, x_new, s)"
    and "cg_iterate fminbound f delta_f x0 (Suc k) = Inr (x', x_new', s')"
  shows "cg_direction f delta_f x x_new s (int k) =
           Inr (fletcher_reeves_direction f delta_f (length x) k x x_new s)
       \<and> vdiv (fletcher_reeves_direction f delta_f (length x) k x x_new s)
              (linalg_norm (fletcher_reeves_direction f delta_f (length x) k x x_new s)) = Inr s'
       \<and> x' = x_new
       \<and> x_new' = vadd x_new (smul (fminbound (\<lambda>alpha. f (vadd x_new (smul alpha s'))) 0 1) s')
       \<and> (keeps_dimension delta_f \<longrightarrow> length x = length x0)"
proof -
  from assms have step: "cg_step fminbound f delta_f (int k) (x, x_new, s) = Inr (x', x_new', s')"
    by (simp add: cg_iterate_Suc)
  from cg_step_parts[OF step] obtain d where
    d: "cg_direction f delta_f x x_new s (int k) = Inr d"
    and s': "vdiv d (linalg_norm d) = Inr s'" and x': "x' = x_new"
    and x_new': "x_new' = vadd x_new (smul (fminbound (\<lambda>alpha. f (vadd x_new (smul alpha s'))) 0 1) s')"
    by blast
  have mod: "(int k mod int (length x) = 0) = (k mod length x = 0)"
    by (metis of_nat_0 of_nat_eq_iff zmod_int)
  from d have "d = fletcher_reeves_direction f delta_f (length x) k x x_new s"
    by (auto simp: cg_direction_def fletcher_reeves_direction_def mod split: if_splits)
  with d s' x' x_new' cg_iterate_length[OF _ assms(1)] show ?thesis by simp
qed

theorem conjugate_gradient_direction_witness:
  "cg_iterate fminbound_grid sq_f sq_grad [4, 0] 0 = Inr ([4, 0], [3, 0], [- 1, 0])
   \<and> cg_iterate fminbound_grid sq_f sq_grad [4, 0] 1 = Inr ([3, 0], [2, 0], [- 1, 0])
   \<and> cg_iterate fminbound_grid sq_f sq_grad [4, 0] 2 = Inr ([2, 0], [1, 0], [- 1, 0])
   \<and> cg_direction sq_f sq_grad [4, 0] [3, 0] [- 1, 0] 0 = Inr [- 6, 0]
   \<and> vdiv [- 6, 0] (linalg_norm [- 6, 0]) = Inr [- 1, 0]
   \<and> cg_direction sq_f sq_grad [3, 0] [2, 0] [- 1, 0] 1 = Inr [- 4 + 16 / 36 * - 1, 0]
   \<and> vdiv [- 4 + 16 / 36 * - 1, 0] (linalg_norm [- 4 + 16 / 36 * - 1, 0]) = Inr [- 1, 0]
   \<and> length [3, 0 :: real] = length [4, 0 :: real]"
proof -
  have fr: "fletcher_reeves_direction sq_f sq_grad (length [4, 0 :: real]) 0 [4, 0] [3, 0] [- 1, 0]
              = [- 6, 0]"
    "fletcher_reeves_direction sq_f sq_grad (length [3, 0 :: real]) 1 [3, 0] [2, 0] [- 1, 0]
              = [- 4 + 16 / 36 * - 1, 0]"
    by (simp_all add: fletcher_reeves_direction_def sq_grad_def vneg_def vadd_def smul_def)
  from conjugate_gradient_direction[OF cg_iterate_examples2(1) cg_iterate_examples2(2)]
       conjugate_gradient_direction[OF cg_iterate_examples2(3) cg_iterate_examples2(4)]
       cg_iterate_examples2 keeps_dimension_sq_grad
  show ?thesis unfolding fr by (simp add: numeral_2_eq_2)
qed

section \<open>The update rules against the specification\<close>

text \<open>
  C6. For an \<open>n \<times> n\<close> matrix \<open>B\<close> and \<open>n\<close>-dimensional \<open>delta_x\<close>, \<open>delta_g\<close>
  with \<open>delta_x\<cdot>delta_g > 0\<close>, no denominator of \<open>BFGS_update\<close> is zero and its result is
  the BFGS increment of the specification; the same holds for \<open>DFP_update\<close> when also
  \<open>delta_g\<cdot>B\<cdot>delta_g\<close> is not zero. Neither function tests a denominator: with
  \<open>delta_x\<cdot>delta_g = 0\<close> both reach the division by zero, and they reach it only through a
  zero denominator.
\<close>

theorem hessian_update_formulas:
  assumes "is_square n B" and "length delta_x = n" and "length delta_g = n"
  shows "(0 < inner delta_x delta_g \<longrightarrow>
            inner delta_g delta_x \<noteq> 0 \<and>
            BFGS_update B delta_x delta_g = Inr (matrix_of n (BFGS_increment B delta_x delta_g)))
       \<and> (0 < inner delta_x delta_g \<and> quad_form delta_g B delta_g \<noteq> 0 \<longrightarrow>
            DFP_update B delta_x delta_g = Inr (matrix_of n (DFP_increment B delta_x delta_g)))
       \<and> (inner delta_x delta_g = 0 \<longrightarrow>
            BFGS_update B delta_x delta_g = Inl DivisionByZero \<and>
            DFP_update B delta_x delta_g = Inl DivisionByZero)
       \<and> (BFGS_update B delta_x delta_g = Inl DivisionByZero) = (inner delta_x delta_g = 0)
       \<and> (DFP_update B delta_x delta_g = Inl DivisionByZero) =
            (inner delta_x delta_g = 0 \<or> quad_form delta_g B delta_g = 0)"
proof -
  have comm: "inner delta_g delta_x = inner delta_x delta_g"
    using assms(2,3) by (simp add: inner_def mult.commute)
  have d1: "dot delta_x delta_g = inner delta_x delta_g"
    and d2: "dot delta_g delta_x = inner delta_x delta_g"
    using assms(2,3) comm by (simp_all add: dot_inner)
  have q: "dot (vec_mat delta_g B) delta_g = quad_form delta_g B delta_g"
    by (rule quad_form_dot[OF assms(1) assms(3) assms(3)])
  have bfgs: "0 < inner delta_x delta_g \<Longrightarrow>
      BFGS_update B delta_x delta_g = Inr (matrix_of n (BFGS_increment B delta_x delta_g))"
    using BFGS_update_increment[OF assms] by simp
  have dfp: "0 < inner delta_x delta_g \<Longrightarrow> quad_form delta_g B delta_g \<noteq> 0 \<Longrightarrow>
      DFP_update B delta_x delta_g = Inr (matrix_of n (DFP_increment B delta_x delta_g))"
    using DFP_update_increment[OF assms] by simp
  have zb: "(BFGS_update B delta_x delta_g = Inl DivisionByZero) = (inner delta_x delta_g = 0)"
    by (simp add: BFGS_update_def d1 d2)
  have zd: "(DFP_update B delta_x delta_g = Inl DivisionByZero) =
      (inner delta_x delta_g = 0 \<or> quad_form delta_g B delta_g = 0)"
    by (simp add: DFP_update_def d1 q)
  show ?thesis using bfgs dfp zb zd comm by auto
qed

theorem hessian_update_formulas_witness:
  "BFGS_update [[1, 0], [0, 1]] [1, 0] [2, 1] = Inr [[- 1 / 4, - 1 / 2], [- 1 / 2, 0]]
   \<and> DFP_update [[1, 0], [0, 1]] [1, 0] [2, 1] = Inr [[- 3 / 10, - 2 / 5], [- 2 / 5, - 1 / 5]]
   \<and> BFGS_update [[1, 0], [0, 1]] [1, 0] [0, 1] = Inl DivisionByZero
   \<and> DFP_update [[1, 0], [0, 1]] [1, 0] [0, 1] = Inl DivisionByZero"
proof -
  have sq: "is_square 2 [[1, 0], [0, 1]]" by (simp add: is_square_def)
  have two: "[0..<2] = [0, 1]" by (simp add: upt_rec)
  have pos: "0 < inner [1, 0] [2, 1]" "quad_form [2, 1] [[1, 0], [0, 1]] [2, 1] \<noteq> 0"
    "inner [1, 0] [0, 1] = 0"
    by (simp_all add: inner_def quad_form_def row_times_def two)
  from hessian_update_formulas[OF sq, of "[1, 0]" "[2, 1]"]
       hessian_update_formulas[OF sq, of "[1, 0]" "[0, 1]"] pos
  show ?thesis
    by (simp add: matrix_of_def BFGS_increment_def DFP_increment_def inner_def quad_form_def
        row_times_def times_col_def two)
qed

section \<open>Forward differences\<close>

text \<open>
  C7, as the code has it. For a step \<open>h \<noteq> 0\<close>, \<open>forward_diff\<close> returns the vector
  whose \<open>i\<close>-th entry is \<open>(f(x + h e\<^sub>i) - f(x)) / h\<close>, and it calls \<open>f\<close> exactly
  \<open>2 n\<close> times for an \<open>n\<close>-dimensional \<open>x\<close>: each pass of its loop evaluates the
  perturbed point and evaluates \<open>f(x)\<close> again; the baseline is not kept between passes.
\<close>

theorem forward_diff_value_and_calls:
  assumes "h \<noteq> 0"
  shows "forward_diff f x h = Inr (map (\<lambda>i. (f (x[i := x ! i + h]) - f x) / h) [0..<length x])
       \<and> forward_diff_calls f x h = Inr (2 * length x)"
  using assms forward_diff_fold[of "length x" x f h]
  by (simp add: forward_diff_def forward_diff_calls_def forward_diff_counted_def)

theorem forward_diff_value_and_calls_witness:
  "forward_diff test_f [0, 0] (1 / 2) = Inr [-1, -1] \<and>
   forward_diff_calls test_f [0, 0] (1 / 2) = Inr 4"
  using forward_diff_value_and_calls[of "1 / 2" test_f "[0, 0]"]
  by (simp add: test_f_def upt_rec)

text \<open>
  The count \<open>n + 1\<close> of C7 fails on the notebook's own test objective in two
  dimensions: four calls, not three.
\<close>

theorem forward_diff_calls_counterexample:
  "forward_diff_calls test_f [0, 0] (1 / 10 ^ 8) \<noteq> Inr (length [0, 0 :: real] + 1)"
  by (simp add: forward_diff_calls_def forward_diff_counted_def forward_diff_body_def call_def)

section \<open>Exhausted iteration budget\<close>




section \<open>Scaling and descaling\<close>

text \<open>
  C9, as the code has it. For a reference vector of the length of \<open>x\<close> with no zero
  entry, when every nonzero entry of \<open>x\<close> and its quotient by the reference stay in
  the range of the normal float64 numbers, both calls return, each entry of the result
  is the rounded product of the rounded quotient with the reference, and it differs
  from the entry of \<open>x\<close> by at most \<open>(2^(-52) + 2^(-106)) |x\<^sub>i|\<close>: descaling undoes
  scaling up to the two roundings, and exactly at a zero entry.
\<close>

theorem descale_scale_roundtrip:
  assumes "length x = length x_ref" and "0 \<notin> set x_ref"
    and "\<forall>i<length x. x ! i = 0 \<or>
           (power_int 2 (- 1021) \<le> \<bar>x ! i\<bar> \<and> \<bar>x ! i\<bar> \<le> 2 ^ 1022 \<and>
            power_int 2 (- 1022) \<le> \<bar>x ! i / x_ref ! i\<bar> \<and> \<bar>x ! i / x_ref ! i\<bar> \<le> 2 ^ 1023)"
  shows "\<exists>x_scaled y.
           scale x x_ref = Inr x_scaled \<and> descale x_scaled x_ref = Inr y \<and>
           length x_scaled = length x \<and> length y = length x \<and>
           (\<forall>i<length x.
              x_scaled ! i = float64_nearest (x ! i / x_ref ! i) \<and>
              y ! i = float64_nearest (x_scaled ! i * x_ref ! i) \<and>
              \<bar>y ! i - x ! i\<bar> \<le> (1 / 2 ^ 52 + 1 / 2 ^ 106) * \<bar>x ! i\<bar>)"
proof -
  define x_scaled where "x_scaled = map2 (\<lambda>a b. float64_nearest (a / b)) x x_ref"
  define y where "y = map2 (\<lambda>q b. float64_nearest (q * b)) x_scaled x_ref"
  have len: "length x_scaled = length x" "length y = length x"
    using assms(1) by (simp_all add: x_scaled_def y_def)
  have entry: "x_ref ! i \<noteq> 0"
      "x ! i = 0 \<or>
           (power_int 2 (- 1021) \<le> \<bar>x ! i\<bar> \<and> \<bar>x ! i\<bar> \<le> 2 ^ 1022 \<and>
            power_int 2 (- 1022) \<le> \<bar>x ! i / x_ref ! i\<bar> \<and> \<bar>x ! i / x_ref ! i\<bar> \<le> 2 ^ 1023)"
    if "i < length x" for i
    using that assms by (metis nth_mem, blast)
  have xs: "x_scaled ! i = float64_nearest (x ! i / x_ref ! i)" if "i < length x" for i
    using that assms(1) by (simp add: x_scaled_def)
  have ys: "y ! i = float64_nearest (x_scaled ! i * x_ref ! i)" if "i < length x" for i
    using that assms(1) len(1) by (simp add: y_def)
  have "scale x x_ref = Inr x_scaled"
    unfolding scale_def broadcast2_def x_scaled_def using assms(1)
    by (simp add: collect_map2 roundtrip_entry(1)[OF entry])
  moreover have "descale x_scaled x_ref = Inr y"
  proof -
    have "\<forall>i<length x_scaled. float64_multiply (x_scaled ! i) (x_ref ! i) =
        Inr (float64_nearest (x_scaled ! i * x_ref ! i))"
      using roundtrip_entry(2)[OF entry] xs len(1) by simp
    then show ?thesis
      unfolding descale_def broadcast2_def y_def using assms(1) len(1)
      by (simp add: collect_map2)
  qed
  moreover have "\<bar>y ! i - x ! i\<bar> \<le> (1 / 2 ^ 52 + 1 / 2 ^ 106) * \<bar>x ! i\<bar>" if "i < length x" for i
    using roundtrip_entry(3)[OF entry[OF that]] xs[OF that] ys[OF that] by simp
  ultimately show ?thesis using len xs ys by blast
qed

theorem descale_scale_roundtrip_witness:
  "scale [1, 6] [49, 3] = Inr [5882252574524729 / 2 ^ 58, 2]
   \<and> descale [5882252574524729 / 2 ^ 58, 2] [49, 3] = Inr [1 - 1 / 2 ^ 53, 6]
   \<and> \<bar>(1 - 1 / 2 ^ 53) - 1\<bar> \<le> (1 / 2 ^ 52 + 1 / 2 ^ 106) * \<bar>1 :: real\<bar>
   \<and> \<bar>6 - 6\<bar> \<le> (1 / 2 ^ 52 + 1 / 2 ^ 106) * \<bar>6 :: real\<bar>"
proof -
  have range: "\<forall>i<length [1, 6 :: real]. [1, 6 :: real] ! i = 0 \<or>
           (power_int 2 (- 1021) \<le> \<bar>[1, 6 :: real] ! i\<bar> \<and> \<bar>[1, 6 :: real] ! i\<bar> \<le> 2 ^ 1022 \<and>
            power_int 2 (- 1022) \<le> \<bar>[1, 6] ! i / [49, 3 :: real] ! i\<bar> \<and>
            \<bar>[1, 6] ! i / [49, 3 :: real] ! i\<bar> \<le> 2 ^ 1023)"
    by (simp add: less_Suc_eq nth_Cons' power_int_minus_divide)
  from descale_scale_roundtrip[of "[1, 6]" "[49, 3]", OF _ _ range]
  obtain x_scaled y where r: "scale [1, 6] [49, 3] = Inr x_scaled" "descale x_scaled [49, 3] = Inr y"
      "\<forall>i<length [1, 6 :: real]. \<bar>y ! i - [1, 6] ! i\<bar> \<le> (1 / 2 ^ 52 + 1 / 2 ^ 106) * \<bar>[1, 6 :: real] ! i\<bar>"
    by auto
  from r(1) have xs: "x_scaled = [5882252574524729 / 2 ^ 58, 2]"
    using scale_examples(5) by simp
  from r(2) have y: "y = [1 - 1 / 2 ^ 53, 6]"
    unfolding xs using scale_examples(6) by simp
  from r(3)[rule_format, of 0] r(3)[rule_format, of 1]
  have "\<bar>(1 - 1 / 2 ^ 53) - 1\<bar> \<le> (1 / 2 ^ 52 + 1 / 2 ^ 106) * \<bar>1 :: real\<bar>"
    "\<bar>6 - 6\<bar> \<le> (1 / 2 ^ 52 + 1 / 2 ^ 106) * \<bar>6 :: real\<bar>"
    unfolding y by simp_all
  with r(1,2) show ?thesis unfolding xs y by blast
qed

text \<open>
  The round trip of C9 is not exact. With \<open>x = [1.]\<close> and the reference
  \<open>[49.]\<close> it returns \<open>[1 - 2^(-53)]\<close>, the float64 number
  \<open>0.9999999999999999\<close>. References of another length are broadcast: \<open>x = [2.]\<close>
  with the reference \<open>[1., 2.]\<close> comes back as \<open>[2., 2.]\<close>. Outside the normal range
  the smallest subnormal number divided by 2 rounds to 0, and \<open>2^1023\<close> divided by
  \<open>0.5\<close> overflows.
\<close>

theorem descale_scale_counterexample:
  "scale [1] [49] = Inr [5882252574524729 / 2 ^ 58]
   \<and> descale [5882252574524729 / 2 ^ 58] [49] = Inr [1 - 1 / 2 ^ 53]
   \<and> [1 - 1 / 2 ^ 53] \<noteq> [1 :: real]
   \<and> scale [2] [1, 2] = Inr [2, 1]
   \<and> descale [2, 1] [1, 2] = Inr [2, 2]
   \<and> [2, 2] \<noteq> [2 :: real]
   \<and> scale [1 / 2 ^ 1074] [2] = Inr [0]
   \<and> descale [0] [2] = Inr [0]
   \<and> [0] \<noteq> [1 / 2 ^ 1074 :: real]
   \<and> scale [2 ^ 1023] [1 / 2] = Inl Overflow"
  using scale_examples(1-4) scale_extremes by simp

section \<open>Arguments of the inner solve\<close>

text \<open>
  C10. Every outer pass of \<open>augmented_lagrangian\<close> calls \<open>quasi_newton\<close> on the
  augmented Lagrangian at the current multipliers with the caller's \<open>delta_f_tol\<close> in
  the place of \<open>grad_tol\<close>, the caller's \<open>delta_x_tol\<close> in the place of
  \<open>delta_f_tol\<close>, the default \<open>1e-5\<close> for \<open>delta_x_tol\<close>, the budget 100 and the
  default update rule; the caller's \<open>grad_tol\<close> and \<open>max_iter\<close> do not reach the inner
  solve (the passes \<open>al_iterate\<close> of a call do not depend on them). A failing inner solve
  fails the pass.
\<close>

theorem inner_solve_arguments:
  "(al_iterate fminbound f con delta_f rho delta_f_tol delta_x_tol x_start k = Inr (x, mu, lambda) \<and>
    al_iterate fminbound f con delta_f rho delta_f_tol delta_x_tol x_start (Suc k) =
      Inr (x_new, mu_new, lambda_new) \<longrightarrow>
      quasi_newton fminbound (\<lambda>x. calc_augmented_lagrangian f con x lambda mu rho) x delta_f
        delta_f_tol delta_x_tol (1 / 10 ^ 5) 100 False BFGS_update = Inr (x_new, None))
   \<and> (al_iterate fminbound f con delta_f rho delta_f_tol delta_x_tol x_start k = Inr (x, mu, lambda) \<and>
      quasi_newton fminbound (\<lambda>x. calc_augmented_lagrangian f con x lambda mu rho) x delta_f
        delta_f_tol delta_x_tol (1 / 10 ^ 5) 100 False BFGS_update = Inl e \<longrightarrow>
      al_iterate fminbound f con delta_f rho delta_f_tol delta_x_tol x_start (Suc k) = Inl e)
   \<and> (augmented_lagrangian fminbound f con x_start delta_f rho grad_tol delta_f_tol delta_x_tol
        max_iter full_output = Inr out \<longrightarrow>
      (\<exists>n x_prev mu_prev lambda_prev mu_last lambda_last.
         al_iterate fminbound f con delta_f rho delta_f_tol delta_x_tol x_start n =
           Inr (x_prev, mu_prev, lambda_prev) \<and>
         al_iterate fminbound f con delta_f rho delta_f_tol delta_x_tol x_start (Suc n) =
           Inr (fst out, mu_last, lambda_last)))"
proof (intro conjI impI)
  assume "al_iterate fminbound f con delta_f rho delta_f_tol delta_x_tol x_start k = Inr (x, mu, lambda) \<and>
    al_iterate fminbound f con delta_f rho delta_f_tol delta_x_tol x_start (Suc k) =
      Inr (x_new, mu_new, lambda_new)"
  then have "al_step fminbound f con delta_f rho delta_f_tol delta_x_tol (x, mu, lambda) =
      Inr (x_new, mu_new, lambda_new)"
    by (auto simp: al_iterate_Suc)
  from al_step_parts[OF this]
  show "quasi_newton fminbound (\<lambda>x. calc_augmented_lagrangian f con x lambda mu rho) x delta_f
        delta_f_tol delta_x_tol (1 / 10 ^ 5) 100 False BFGS_update = Inr (x_new, None)"
    by blast
next
  assume "al_iterate fminbound f con delta_f rho delta_f_tol delta_x_tol x_start k = Inr (x, mu, lambda) \<and>
      quasi_newton fminbound (\<lambda>x. calc_augmented_lagrangian f con x lambda mu rho) x delta_f
        delta_f_tol delta_x_tol (1 / 10 ^ 5) 100 False BFGS_update = Inl e"
  then show "al_iterate fminbound f con delta_f rho delta_f_tol delta_x_tol x_start (Suc k) = Inl e"
    using al_step_error[of fminbound f con lambda mu rho x delta_f delta_f_tol delta_x_tol e]
    by (auto simp: al_iterate_Suc)
next
  assume "augmented_lagrangian fminbound f con x_start delta_f rho grad_tol delta_f_tol delta_x_tol
        max_iter full_output = Inr out"
  from al_result[OF this] obtain n x_prev mu_prev lambda_prev x_new mu_new lambda_new flag where
    "out = return_output f full_output (x_new, flag, int n + 1)"
    "al_iterate fminbound f con delta_f rho delta_f_tol delta_x_tol x_start n =
       Inr (x_prev, mu_prev, lambda_prev)"
    "al_iterate fminbound f con delta_f rho delta_f_tol delta_x_tol x_start (Suc n) =
       Inr (x_new, mu_new, lambda_new)"
    by blast
  then have "al_iterate fminbound f con delta_f rho delta_f_tol delta_x_tol x_start n =
           Inr (x_prev, mu_prev, lambda_prev) \<and>
         al_iterate fminbound f con delta_f rho delta_f_tol delta_x_tol x_start (Suc n) =
           Inr (fst out, mu_new, lambda_new)"
    by (simp add: return_output_def)
  then show "\<exists>n x_prev mu_prev lambda_prev mu_last lambda_last.
         al_iterate fminbound f con delta_f rho delta_f_tol delta_x_tol x_start n =
           Inr (x_prev, mu_prev, lambda_prev) \<and>
         al_iterate fminbound f con delta_f rho delta_f_tol delta_x_tol x_start (Suc n) =
           Inr (fst out, mu_last, lambda_last)"
    by blast
qed

theorem inner_solve_arguments_witness:
  "quasi_newton fminbound_grid (\<lambda>x. calc_augmented_lagrangian al_f al_con x [0] [0, 0] 1) [0] fd_grad
      3 (1 / 100000) (1 / 10 ^ 5) 100 False BFGS_update = Inr ([1], None)
   \<and> al_iterate fminbound_grid al_f al_con fd_grad 1 3 (1 / 100000) [0] (Suc 0) =
        Inr ([1], [0, 1 / 2], [- 2])
   \<and> al_iterate fminbound_grid (\<lambda>x. 0) al_con fd_grad 0 3 (1 / 100000) [0] (Suc 0) =
        Inl DivisionByZero
   \<and> augmented_lagrangian fminbound_grid al_f al_con [0] fd_grad 1 2 3 (1 / 100000) 100 True =
        Inr ([1], Some (- 1, 1, 1))
   \<and> augmented_lagrangian fminbound_grid al_f al_con [0] fd_grad 1 (1 / 2) 3 (1 / 100000) 1 True =
        Inr ([1], Some (- 1, 0, 1))"
proof -
  note inst = inner_solve_arguments[where fminbound = fminbound_grid and con = al_con
      and delta_f = fd_grad and delta_f_tol = 3 and delta_x_tol = "1 / 100000"
      and x_start = "[0]" and k = 0 and x = "[0]" and mu = "[0, 0]" and lambda = "[0]"]
  note it0 = al_example_iterate(1) and it1 = al_example_iterate(2)
  note inner = inst[where f = al_f and rho = 1 and x_new = "[1]" and mu_new = "[0, 1 / 2]"
      and lambda_new = "[- 2]", THEN conjunct1, rule_format, OF conjI[OF it0 it1]]
  have e0: "al_iterate fminbound_grid (\<lambda>x. 0) al_con fd_grad 0 3 (1 / 100000) [0] 0 =
      Inr ([0], [0, 0], [0])"
    by (simp add: al_iterate_def al_init_def al_con_def)
  note err = inst[where f = "\<lambda>x. 0" and rho = 0 and e = DivisionByZero,
      THEN conjunct2, THEN conjunct1, rule_format, OF conjI[OF e0 al_example_error]]
  have run2: "augmented_lagrangian fminbound_grid al_f al_con [0] fd_grad 1 (1 / 2) 3 (1 / 100000) 1 True =
        Inr ([1], Some (- 1, 0, 1))"
    by (simp add: augmented_lagrangian_def al_init_def al_con_def
      al_loop.simps[of _ _ _ _ _ _ _ _ _ _ _ _ 0] al_example_step check_convergence_def al_f_def)
  show ?thesis
    using inner it1 err al_example_run run2 by blast
qed

end
